theory Spec2Isabelle
  imports Main
begin

section \<open>Errors and JavaScript values\<close>

text \<open>
  A thrown value is an error object: the class it was constructed with
  (\<^verbatim>\<open>new SoloError(...)\<close>), its \<^verbatim>\<open>message\<close> and the optional cause handed to the
  constructor.  A function that may throw returns \<open>error + 'a\<close>, \<open>Inl\<close> the thrown value.
\<close>

datatype error = Error (error_class: string) (message: string) (cause: "error option")

definition SoloError :: "string \<Rightarrow> error option \<Rightarrow> error" where
  "SoloError msg c = Error ''SoloError'' msg c"

definition TypeError :: "string \<Rightarrow> error" where
  "TypeError msg = Error ''TypeError'' msg None"

definition RangeError :: "string \<Rightarrow> error" where
  "RangeError msg = Error ''RangeError'' msg None"

text \<open>\<open>fails_with cls r\<close>: the call threw, and the thrown error is of class \<open>cls\<close>.\<close>

definition fails_with :: "string \<Rightarrow> error + 'a \<Rightarrow> bool" where
  "fails_with cls r = (case r of Inl e \<Rightarrow> error_class e = cls | Inr _ \<Rightarrow> False)"

text \<open>
  The result of reading a property through a getter that may throw: the read raises,
  yields \<^verbatim>\<open>undefined\<close>/\<^verbatim>\<open>null\<close>, or yields a value.
\<close>

datatype 'a access = Raises error | Absent | Present 'a

text \<open>
  Reading \<^verbatim>\<open>obj[key]\<close> on a plain object gives the value of the object's own property,
  or else the member of that name which every plain object inherits from
  \<^verbatim>\<open>Object.prototype\<close> (a function; for \<^verbatim>\<open>__proto__\<close> the prototype itself), or else
  \<^verbatim>\<open>undefined\<close>.
\<close>

datatype 'v property = Undefined | Own 'v | Inherited string

definition Object_prototype :: "string list" where
  "Object_prototype =
     [''constructor'', ''__defineGetter__'', ''__defineSetter__'', ''hasOwnProperty'',
      ''__lookupGetter__'', ''__lookupSetter__'', ''isPrototypeOf'', ''propertyIsEnumerable'',
      ''toString'', ''valueOf'', ''__proto__'', ''toLocaleString'']"

definition js_get :: "(string \<rightharpoonup> 'v) \<Rightarrow> string \<Rightarrow> 'v property" where
  "js_get obj key =
     (case obj key of
        Some v \<Rightarrow> Own v
      | None \<Rightarrow> (if key \<in> set Object_prototype then Inherited key else Undefined))"

section \<open>Remote configuration, local configuration, consensus nodes\<close>

text \<open>
  \<^verbatim>\<open>Cluster\<close>: the two fields \<^verbatim>\<open>getConsensusNodes\<close> reads; \<open>None\<close> is a field that is
  \<^verbatim>\<open>undefined\<close> or \<^verbatim>\<open>null\<close>.
\<close>

record Cluster =
  dnsBaseDomain :: "string option"
  dnsConsensusNodePattern :: "string option"

text \<open>A node record of \<^verbatim>\<open>components.consensusNodes\<close>, with the fields the code reads.\<close>

record ConsensusNodeComponent =
  name :: string
  nodeId :: int
  namespace :: string
  cluster :: string

text \<open>
  \<^verbatim>\<open>components.consensusNodes\<close> is an object used as a mapping.  It is represented by its
  own enumerable properties in the order in which \<^verbatim>\<open>Object.values\<close> iterates them.
\<close>

type_synonym consensusNodesRecord = "(string \<times> ConsensusNodeComponent) list"

definition Object_values :: "('k \<times> 'v) list \<Rightarrow> 'v list" where
  "Object_values obj = map snd obj"

record Components =
  consensusNodes :: "consensusNodesRecord access"

text \<open>
  The remote configuration manager as \<^verbatim>\<open>getConsensusNodes\<close> observes it (its class is
  not among the sources at hand): the answer of \<^verbatim>\<open>isLoaded()\<close>, the \<^verbatim>\<open>clusters\<close> record,
  which is a record as its declared type says, and the \<^verbatim>\<open>components\<close> getter, which the
  code expects to throw or to come back empty.
\<close>

record RemoteConfigManager =
  loaded :: bool
  clusters :: "string \<rightharpoonup> Cluster"
  components :: "Components access"

definition isLoaded :: "RemoteConfigManager \<Rightarrow> bool" where
  "isLoaded rcm = loaded rcm"

text \<open>
  The local configuration: the own properties of its \<^verbatim>\<open>clusterRefs\<close> object, which is a
  plain object and is read with \<open>js_get\<close>.
\<close>

record LocalConfig =
  clusterRefs :: "string \<rightharpoonup> string"

text \<open>
  Modelled from the spec: the class \<^verbatim>\<open>ConsensusNode\<close> (\<^verbatim>\<open>core/model/consensus_node\<close>) is
  not among the sources at hand.  The specification describes it as an immutable record
  of alias, node id, namespace, cluster reference, context, DNS base domain, DNS
  node-name pattern and fully-qualified domain name; \<^verbatim>\<open>getConsensusNodes\<close> fills it with
  \<^verbatim>\<open>new ConsensusNode(...)\<close> in this order and reads back \<^verbatim>\<open>cluster\<close> and \<^verbatim>\<open>context\<close>.
  The context is whatever the lookup in the local configuration gives.
\<close>

datatype ConsensusNode = ConsensusNode
  (cn_name: string)
  (cn_nodeId: int)
  (cn_namespace: string)
  (cn_cluster: string)
  (cn_context: "string property")
  (cn_dnsBaseDomain: string)
  (cn_dnsConsensusNodePattern: string)
  (cn_fullyQualifiedDomainName: string)

section \<open>Rendering the fully-qualified domain name\<close>

text \<open>
  Modelled from the spec: \<^verbatim>\<open>Templates.renderConsensusNodeFullyQualifiedDomainName\<close>, whose
  source file (\<^verbatim>\<open>core/templates\<close>) is not part of the sources at hand.  The specification
  says: the name is rendered by substituting the \<^verbatim>\<open>${nodeAlias}\<close> and \<^verbatim>\<open>${namespace}\<close>
  placeholders in the resolved pattern with the node's alias and namespace; unknown
  placeholders are left verbatim.  The pattern is scanned once from the left.
\<close>

fun substitutePlaceholders :: "string \<Rightarrow> string \<Rightarrow> string \<Rightarrow> string" where
  "substitutePlaceholders nodeAlias ns [] = []"
| "substitutePlaceholders nodeAlias ns (c # cs) =
     (if take 12 (c # cs) = ''${nodeAlias}''
        then nodeAlias @ substitutePlaceholders nodeAlias ns (drop 11 cs)
      else if take 12 (c # cs) = ''${namespace}''
        then ns @ substitutePlaceholders nodeAlias ns (drop 11 cs)
      else c # substitutePlaceholders nodeAlias ns cs)"

definition renderConsensusNodeFullyQualifiedDomainName ::
  "string \<Rightarrow> int \<Rightarrow> string \<Rightarrow> string \<Rightarrow> string \<Rightarrow> string \<Rightarrow> string" where
  "renderConsensusNodeFullyQualifiedDomainName nodeAlias nid ns cl baseDomain pattern =
     substitutePlaceholders nodeAlias ns pattern"

text \<open>
  What the specification's sentence means, for a pattern given as a sequence of pieces:
  literal text and placeholders \<^verbatim>\<open>${x}\<close>.  The two known placeholders are replaced,
  every other placeholder is kept as it is written.
\<close>

datatype piece = Text string | Placeholder string

fun unparse :: "piece list \<Rightarrow> string" where
  "unparse [] = []"
| "unparse (Text s # ps) = s @ unparse ps"
| "unparse (Placeholder x # ps) = ''${'' @ x @ ''}'' @ unparse ps"

fun instantiate :: "string \<Rightarrow> string \<Rightarrow> piece list \<Rightarrow> string" where
  "instantiate nodeAlias ns [] = []"
| "instantiate nodeAlias ns (Text s # ps) = s @ instantiate nodeAlias ns ps"
| "instantiate nodeAlias ns (Placeholder x # ps) =
     (if x = ''nodeAlias'' then nodeAlias
      else if x = ''namespace'' then ns
      else ''${'' @ x @ ''}'') @ instantiate nodeAlias ns ps"

text \<open>Literal text has no \<^verbatim>\<open>$\<close>; a placeholder name has neither \<^verbatim>\<open>$\<close> nor \<^verbatim>\<open>}\<close>.\<close>

fun well_formed :: "piece \<Rightarrow> bool" where
  "well_formed (Text s) = (CHR ''$'' \<notin> set s)"
| "well_formed (Placeholder x) = (CHR ''$'' \<notin> set x \<and> CHR ''}'' \<notin> set x)"

section \<open>The base command\<close>

text \<open>
  The values of flags and configuration properties: primitive values.
\<close>

datatype jsvalue = JsUndefined | JsString string | JsNumber int | JsBoolean bool

text \<open>\<^verbatim>\<open>CommandFlag\<close>: \<^verbatim>\<open>constName\<close> names the property, \<^verbatim>\<open>name\<close> keys the cached value.\<close>

record CommandFlag =
  constName :: string
  flag_name :: string

text \<open>
  \<^verbatim>\<open>ConfigManager\<close>: what \<^verbatim>\<open>this.config.flags[name]\<close> yields for a flag name, \<open>None\<close> where
  the object has nothing under the name.
\<close>

record ConfigManager =
  config_flags :: "string \<rightharpoonup> jsvalue"

definition getFlag :: "ConfigManager \<Rightarrow> CommandFlag \<Rightarrow> jsvalue" where
  "getFlag cm flag =
     (case config_flags cm (flag_name flag) of
        None \<Rightarrow> JsUndefined
      | Some v \<Rightarrow> (if v \<noteq> JsUndefined then v else JsUndefined))"

text \<open>
  The command object.  \<^verbatim>\<open>_configMaps\<close> maps a configuration name to a reference to the
  configuration object built for it; the objects themselves live in a store (a list of
  objects, a reference being an index), because \<^verbatim>\<open>getConfig\<close> hands the same object to
  its caller.
\<close>

record BaseCommand =
  configManager :: ConfigManager
  localConfig :: LocalConfig
  remoteConfigManager :: RemoteConfigManager
  configMaps :: "string \<rightharpoonup> nat"

definition getLocalConfig :: "BaseCommand \<Rightarrow> LocalConfig" where
  "getLocalConfig this = localConfig this"

definition getRemoteConfigManager :: "BaseCommand \<Rightarrow> RemoteConfigManager" where
  "getRemoteConfigManager this = remoteConfigManager this"

subsection \<open>\<^verbatim>\<open>getConsensusNodes\<close>\<close>

text \<open>
  \<^verbatim>\<open>clusters[ref]?.dnsBaseDomain ?? 'cluster.local'\<close> and
  \<^verbatim>\<open>clusters[ref]?.dnsConsensusNodePattern ?? 'network-${nodeAlias}-svc.${namespace}.svc'\<close>.
  Only an own entry of \<^verbatim>\<open>clusters\<close> can carry the fields: a member inherited from
  \<^verbatim>\<open>Object.prototype\<close> has neither, and the literal results as for no entry.
\<close>

definition resolveDnsBaseDomain :: "(string \<rightharpoonup> Cluster) \<Rightarrow> string \<Rightarrow> string" where
  "resolveDnsBaseDomain cls ref =
     (case cls ref of
        None \<Rightarrow> ''cluster.local''
      | Some cl \<Rightarrow> (case dnsBaseDomain cl of None \<Rightarrow> ''cluster.local'' | Some d \<Rightarrow> d))"

definition resolveDnsConsensusNodePattern :: "(string \<rightharpoonup> Cluster) \<Rightarrow> string \<Rightarrow> string" where
  "resolveDnsConsensusNodePattern cls ref =
     (case cls ref of
        None \<Rightarrow> ''network-${nodeAlias}-svc.${namespace}.svc''
      | Some cl \<Rightarrow>
          (case dnsConsensusNodePattern cl of
             None \<Rightarrow> ''network-${nodeAlias}-svc.${namespace}.svc''
           | Some p \<Rightarrow> p))"

text \<open>The body of the \<^verbatim>\<open>forEach\<close> callback: the node that is pushed for one node record.\<close>

definition newConsensusNode ::
  "BaseCommand \<Rightarrow> (string \<rightharpoonup> Cluster) \<Rightarrow> ConsensusNodeComponent \<Rightarrow> ConsensusNode" where
  "newConsensusNode this cls node =
     ConsensusNode
       (name node)
       (nodeId node)
       (namespace node)
       (cluster node)
       (js_get (clusterRefs (getLocalConfig this)) (cluster node))
       (resolveDnsBaseDomain cls (cluster node))
       (resolveDnsConsensusNodePattern cls (cluster node))
       (renderConsensusNodeFullyQualifiedDomainName
          (name node) (nodeId node) (namespace node) (cluster node)
          (resolveDnsBaseDomain cls (cluster node))
          (resolveDnsConsensusNodePattern cls (cluster node)))"

text \<open>\<^verbatim>\<open>forEach\<close> with \<^verbatim>\<open>consensusNodes.push(...)\<close>: every node is appended at the end.\<close>

fun pushConsensusNodes ::
  "BaseCommand \<Rightarrow> (string \<rightharpoonup> Cluster) \<Rightarrow> ConsensusNode list \<Rightarrow> ConsensusNodeComponent list
     \<Rightarrow> ConsensusNode list" where
  "pushConsensusNodes this cls acc [] = acc"
| "pushConsensusNodes this cls acc (node # nodes) =
     pushConsensusNodes this cls (acc @ [newConsensusNode this cls node]) nodes"

definition getConsensusNodes :: "BaseCommand \<Rightarrow> error + ConsensusNode list" where
  "getConsensusNodes this =
     (if \<not> isLoaded (getRemoteConfigManager this)
      then Inl (SoloError ''Remote configuration is not loaded, and was expected to be loaded'' None)
      else
        let cls = clusters (getRemoteConfigManager this) in
        case components (getRemoteConfigManager this) of
          Raises e \<Rightarrow> Inr []
        | Absent \<Rightarrow> Inr []
        | Present comps \<Rightarrow>
            (case consensusNodes comps of
               Raises e \<Rightarrow> Inr []
             | Absent \<Rightarrow> Inr []
             | Present nodes \<Rightarrow> Inr (pushConsensusNodes this cls [] (Object_values nodes))))"

subsection \<open>\<^verbatim>\<open>getContexts\<close> and \<^verbatim>\<open>getClusterRefs\<close>\<close>

text \<open>
  \<^verbatim>\<open>if (!contexts.includes(node.context)) contexts.push(node.context)\<close>, node after node.
\<close>

fun pushContexts ::
  "string property list \<Rightarrow> ConsensusNode list \<Rightarrow> string property list" where
  "pushContexts contexts [] = contexts"
| "pushContexts contexts (node # nodes) =
     pushContexts
       (if cn_context node \<notin> set contexts then contexts @ [cn_context node] else contexts)
       nodes"

definition getContexts :: "BaseCommand \<Rightarrow> error + string property list" where
  "getContexts this =
     (case getConsensusNodes this of
        Inl e \<Rightarrow> Inl e
      | Inr nodes \<Rightarrow> Inr (pushContexts [] nodes))"

text \<open>
  \<^verbatim>\<open>ClusterRefs\<close>, the plain object that \<^verbatim>\<open>getClusterRefs\<close> builds from \<^verbatim>\<open>{}\<close>: its own
  properties in the order of their creation, and its prototype: \<open>None\<close> for
  \<^verbatim>\<open>Object.prototype\<close>, \<open>Some m\<close> once the function \<open>m\<close> of \<^verbatim>\<open>Object.prototype\<close> has been
  put in its place.
\<close>

record ClusterRefs =
  ownProperties :: "(string \<times> string property) list"
  prototype :: "string option"

definition emptyClusterRefs :: ClusterRefs where
  "emptyClusterRefs = \<lparr>ownProperties = [], prototype = None\<rparr>"

text \<open>
  \<^verbatim>\<open>Object.keys\<close>: the own keys that are array indices (canonical decimal numerals up to
  \<open>2\<^sup>3\<^sup>2 - 2\<close>) in ascending numeric order, then the other keys in the order of
  their creation.
\<close>

definition index_value :: "string \<Rightarrow> int" where
  "index_value key = foldl (\<lambda>n c. 10 * n + (of_char c - 48)) 0 key"

definition is_array_index :: "string \<Rightarrow> bool" where
  "is_array_index key =
     (key \<noteq> [] \<and> (\<forall>c \<in> set key. c \<in> set ''0123456789'')
      \<and> (key = ''0'' \<or> hd key \<noteq> CHR ''0'') \<and> index_value key \<le> 4294967294)"

definition Object_keys :: "ClusterRefs \<Rightarrow> string list" where
  "Object_keys obj =
     sort_key index_value (filter is_array_index (map fst (ownProperties obj)))
     @ filter (\<lambda>key. \<not> is_array_index key) (map fst (ownProperties obj))"

text \<open>
  The properties that an assignment cannot create on the object because its prototype
  chain holds them read-only: none under \<^verbatim>\<open>Object.prototype\<close>; under a function,
  \<^verbatim>\<open>length\<close> and \<^verbatim>\<open>name\<close> (not writable), \<^verbatim>\<open>caller\<close> and \<^verbatim>\<open>arguments\<close> (setters that throw),
  and under the function \<^verbatim>\<open>Object\<close> also \<^verbatim>\<open>prototype\<close>.
\<close>

definition read_only :: "string option \<Rightarrow> string \<Rightarrow> bool" where
  "read_only proto key =
     (case proto of
        None \<Rightarrow> False
      | Some m \<Rightarrow>
          key \<in> set [''length'', ''name'', ''caller'', ''arguments'']
          \<or> (m = ''constructor'' \<and> key = ''prototype''))"

text \<open>
  \<^verbatim>\<open>clustersRefs[key] = value\<close> for a key that is not an own property, in strict code.
  The key \<^verbatim>\<open>__proto__\<close> reaches the setter inherited from \<^verbatim>\<open>Object.prototype\<close>, which
  creates no property: it replaces the prototype when the value is an object and does
  nothing otherwise.
\<close>

definition assignProperty :: "ClusterRefs \<Rightarrow> string \<Rightarrow> string property \<Rightarrow> error + ClusterRefs" where
  "assignProperty obj key v =
     (if key = ''__proto__''
      then (case v of
              Inherited m \<Rightarrow> Inr (obj\<lparr>prototype := (if m = ''__proto__'' then None else Some m)\<rparr>)
            | _ \<Rightarrow> Inr obj)
      else if read_only (prototype obj) key
      then Inl (TypeError (''Cannot assign to read only property '' @ key))
      else Inr (obj\<lparr>ownProperties := ownProperties obj @ [(key, v)]\<rparr>))"

text \<open>
  \<^verbatim>\<open>if (!Object.keys(clustersRefs).includes(node.cluster))
  clustersRefs[node.cluster] = node.context\<close>, node after node.
\<close>

fun setClusterRefs :: "ClusterRefs \<Rightarrow> ConsensusNode list \<Rightarrow> error + ClusterRefs" where
  "setClusterRefs clustersRefs [] = Inr clustersRefs"
| "setClusterRefs clustersRefs (node # nodes) =
     (if cn_cluster node \<notin> set (Object_keys clustersRefs)
      then (case assignProperty clustersRefs (cn_cluster node) (cn_context node) of
              Inl e \<Rightarrow> Inl e
            | Inr clustersRefs' \<Rightarrow> setClusterRefs clustersRefs' nodes)
      else setClusterRefs clustersRefs nodes)"

definition getClusterRefs :: "BaseCommand \<Rightarrow> error + ClusterRefs" where
  "getClusterRefs this =
     (case getConsensusNodes this of
        Inl e \<Rightarrow> Inl e
      | Inr nodes \<Rightarrow> setClusterRefs emptyClusterRefs nodes)"

text \<open>
  What "de-duplicated, in first-seen order" means: the element at position \<open>i\<close> is kept
  exactly when it does not occur before position \<open>i\<close>.
\<close>

definition first_seen :: "'a list \<Rightarrow> 'a list" where
  "first_seen xs = map (\<lambda>i. xs ! i) (filter (\<lambda>i. xs ! i \<notin> set (take i xs)) [0..<length xs])"

subsection \<open>\<^verbatim>\<open>getConfig\<close> and \<^verbatim>\<open>getUnusedConfigs\<close>\<close>

text \<open>
  An own property of the object that \<^verbatim>\<open>getConfig\<close> builds: a data property holding a
  value, the data property that holds the \<^verbatim>\<open>Map\<close> of read counts, or an accessor property
  made by \<^verbatim>\<open>Object.defineProperty\<close>, with a getter only (flags) or with a getter and a
  setter (extra properties).  The accessor functions close over the name under which
  they are defined.
\<close>

datatype accessor = GetOnly | GetSet

datatype slot = Data jsvalue | UsedConfigsMap | Accessor accessor

text \<open>
  An instance of the class that \<^verbatim>\<open>getConfig\<close> builds.  \<open>cfg_flags\<close> and
  \<open>cfg_extraProperties\<close> are the arguments its methods close over, \<open>usedConfigs\<close> is the
  content of the \<^verbatim>\<open>Map\<close> made by the constructor, and \<open>props\<close> are the own properties of
  the object, all in one name space: the member \<^verbatim>\<open>usedConfigs\<close>, the declared properties
  and their backing fields \<^verbatim>\<open>_name\<close>, and whatever is assigned later.  The definition of
  a key that comes first in the list is the current one.
\<close>

record NewConfigClass =
  cfg_flags :: "CommandFlag list"
  cfg_extraProperties :: "string list"
  usedConfigs :: "string \<rightharpoonup> nat"
  props :: "(string \<times> slot) list"

text \<open>
  What the object inherits: the method \<^verbatim>\<open>getUnusedConfigs\<close> of its class and the members
  of \<^verbatim>\<open>Object.prototype\<close>.
\<close>

definition inherited_members :: "string list" where
  "inherited_members = ''getUnusedConfigs'' # Object_prototype"

datatype read_result = Value jsvalue | MapObject | Member string

text \<open>
  Reading \<^verbatim>\<open>this[key]\<close>.  On an accessor property the getter runs:
  \<^verbatim>\<open>this.usedConfigs.set(key, this.usedConfigs.get(key) + 1 || 1); return this[_key]\<close>.
  When \<^verbatim>\<open>usedConfigs\<close> is itself an accessor property, reading it in the getter runs
  the getter again without end, which the engine stops with a \<^verbatim>\<open>RangeError\<close>; when it
  holds a primitive value or is missing, the call of \<^verbatim>\<open>set\<close> on it throws a \<^verbatim>\<open>TypeError\<close>.
\<close>

function jsGet :: "NewConfigClass \<Rightarrow> string \<Rightarrow> (error + read_result) \<times> NewConfigClass" where
  "jsGet obj key =
     (case map_of (props obj) key of
        Some (Data v) \<Rightarrow> (Inr (Value v), obj)
      | Some UsedConfigsMap \<Rightarrow> (Inr MapObject, obj)
      | Some (Accessor a) \<Rightarrow>
          (case map_of (props obj) ''usedConfigs'' of
             Some UsedConfigsMap \<Rightarrow>
               jsGet
                 (obj\<lparr>usedConfigs := (usedConfigs obj)
                        (key \<mapsto> (case usedConfigs obj key of None \<Rightarrow> 1 | Some n \<Rightarrow> n + 1))\<rparr>)
                 (CHR ''_'' # key)
           | Some (Accessor b) \<Rightarrow> (Inl (RangeError ''Maximum call stack size exceeded''), obj)
           | Some (Data v) \<Rightarrow>
               (Inl (TypeError
                       (if v = JsUndefined then ''Cannot read properties of undefined (reading set)''
                        else ''this.usedConfigs.set is not a function'')), obj)
           | None \<Rightarrow> (Inl (TypeError ''Cannot read properties of undefined (reading set)''), obj))
      | None \<Rightarrow>
          (Inr (if key \<in> set inherited_members then Member key else Value JsUndefined), obj))"
  by pat_completeness auto
termination
proof (relation "measure (\<lambda>(obj, key). Suc (sum_list (map (length \<circ> fst) (props obj))) - length key)")
  show "wf (measure (\<lambda>(obj, key). Suc (sum_list (map (length \<circ> fst) (props obj))) - length key))"
    by simp
next
  fix obj :: NewConfigClass and key sl
  assume "map_of (props obj) key = Some sl"
  then have "length key \<in> set (map (length \<circ> fst) (props obj))"
    by (auto dest: map_of_SomeD intro: rev_image_eqI)
  then have "length key \<le> sum_list (map (length \<circ> fst) (props obj))"
    by (intro member_le_sum_list) simp_all
  then show "((obj\<lparr>usedConfigs := (usedConfigs obj)
                  (key \<mapsto> (case usedConfigs obj key of None \<Rightarrow> 1 | Some n \<Rightarrow> n + 1))\<rparr>,
               CHR ''_'' # key), obj, key)
             \<in> measure (\<lambda>(obj, key). Suc (sum_list (map (length \<circ> fst) (props obj))) - length key)"
    by simp
qed

text \<open>
  Assigning \<^verbatim>\<open>this[key] = v\<close> in strict code.  On an accessor property with a setter the
  setter runs: \<^verbatim>\<open>this[_key] = value\<close>; without a setter the assignment throws.  A data
  property is overwritten.  A key that is not an own property becomes one, except
  \<^verbatim>\<open>__proto__\<close>, whose inherited setter ignores a primitive value.
\<close>

function jsSet :: "NewConfigClass \<Rightarrow> string \<Rightarrow> jsvalue \<Rightarrow> error + NewConfigClass" where
  "jsSet obj key v =
     (case map_of (props obj) key of
        Some (Accessor GetSet) \<Rightarrow> jsSet obj (CHR ''_'' # key) v
      | Some (Accessor GetOnly) \<Rightarrow>
          Inl (TypeError (''Cannot set property '' @ key @ '' which has only a getter''))
      | Some (Data old) \<Rightarrow> Inr (obj\<lparr>props := (key, Data v) # props obj\<rparr>)
      | Some UsedConfigsMap \<Rightarrow> Inr (obj\<lparr>props := (key, Data v) # props obj\<rparr>)
      | None \<Rightarrow>
          (if key = ''__proto__'' then Inr obj
           else Inr (obj\<lparr>props := (key, Data v) # props obj\<rparr>)))"
  by pat_completeness auto
termination
proof (relation "measure (\<lambda>(obj, key, v). Suc (sum_list (map (length \<circ> fst) (props obj))) - length key)")
  show "wf (measure (\<lambda>(obj, key, v). Suc (sum_list (map (length \<circ> fst) (props obj))) - length key))"
    by simp
next
  fix obj :: NewConfigClass and key sl and v :: jsvalue
  assume "map_of (props obj) key = Some sl"
  then have "length key \<in> set (map (length \<circ> fst) (props obj))"
    by (auto dest: map_of_SomeD intro: rev_image_eqI)
  then have "length key \<le> sum_list (map (length \<circ> fst) (props obj))"
    by (intro member_le_sum_list) simp_all
  then show "((obj, CHR ''_'' # key, v), obj, key, v)
             \<in> measure (\<lambda>(obj, key, v). Suc (sum_list (map (length \<circ> fst) (props obj))) - length key)"
    by simp
qed

text \<open>
  \<^verbatim>\<open>Object.defineProperty(this, key, {get, set})\<close> with the default attributes: the new
  property is not configurable, so defining it once more, with other functions, throws;
  a data property made by assignment is configurable and is replaced.
\<close>

definition defineProperty :: "NewConfigClass \<Rightarrow> string \<Rightarrow> accessor \<Rightarrow> error + NewConfigClass" where
  "defineProperty obj key a =
     (case map_of (props obj) key of
        Some (Accessor b) \<Rightarrow> Inl (TypeError (''Cannot redefine property: '' @ key))
      | _ \<Rightarrow> Inr (obj\<lparr>props := (key, Accessor a) # props obj\<rparr>))"

text \<open>
  The body of both \<^verbatim>\<open>forEach\<close> loops of the constructor: \<^verbatim>\<open>this[_name] = value\<close>, then
  \<^verbatim>\<open>Object.defineProperty(this, name, ...)\<close>.
\<close>

definition declareProperty ::
  "NewConfigClass \<Rightarrow> string \<Rightarrow> jsvalue \<Rightarrow> accessor \<Rightarrow> error + NewConfigClass" where
  "declareProperty obj p v a =
     (case jsSet obj (CHR ''_'' # p) v of
        Inl e \<Rightarrow> Inl e
      | Inr obj' \<Rightarrow> defineProperty obj' p a)"

fun addFlags :: "ConfigManager \<Rightarrow> NewConfigClass \<Rightarrow> CommandFlag list \<Rightarrow> error + NewConfigClass" where
  "addFlags cm obj [] = Inr obj"
| "addFlags cm obj (flag # flags) =
     (case declareProperty obj (constName flag) (getFlag cm flag) GetOnly of
        Inl e \<Rightarrow> Inl e
      | Inr obj' \<Rightarrow> addFlags cm obj' flags)"

fun addExtraProperties :: "NewConfigClass \<Rightarrow> string list \<Rightarrow> error + NewConfigClass" where
  "addExtraProperties obj [] = Inr obj"
| "addExtraProperties obj (p # ps) =
     (case declareProperty obj p (JsString []) GetSet of
        Inl e \<Rightarrow> Inl e
      | Inr obj' \<Rightarrow> addExtraProperties obj' ps)"

text \<open>The constructor: \<^verbatim>\<open>this.usedConfigs = new Map()\<close>, then the two loops.\<close>

definition new_NewConfigClass ::
  "ConfigManager \<Rightarrow> CommandFlag list \<Rightarrow> string list \<Rightarrow> error + NewConfigClass" where
  "new_NewConfigClass cm flags extraProperties =
     (case addFlags cm
             \<lparr>cfg_flags = flags, cfg_extraProperties = extraProperties,
              usedConfigs = Map.empty, props = [(''usedConfigs'', UsedConfigsMap)]\<rparr>
             flags of
        Inl e \<Rightarrow> Inl e
      | Inr obj \<Rightarrow> addExtraProperties obj extraProperties)"

text \<open>
  The method \<^verbatim>\<open>getUnusedConfigs\<close> of the built class.  Each test
  \<^verbatim>\<open>this.usedConfigs.has(name)\<close> reads the property \<^verbatim>\<open>usedConfigs\<close>; with no declared name
  there is no test.
\<close>

definition cfg_getUnusedConfigs :: "NewConfigClass \<Rightarrow> error + string list" where
  "cfg_getUnusedConfigs obj =
     (if map constName (cfg_flags obj) @ cfg_extraProperties obj = [] then Inr []
      else
        (case map_of (props obj) ''usedConfigs'' of
           Some UsedConfigsMap \<Rightarrow>
             Inr (filter (\<lambda>p. usedConfigs obj p = None) (map constName (cfg_flags obj))
                  @ filter (\<lambda>p. usedConfigs obj p = None) (cfg_extraProperties obj))
         | Some (Accessor b) \<Rightarrow> Inl (RangeError ''Maximum call stack size exceeded'')
         | Some (Data v) \<Rightarrow>
             Inl (TypeError
                    (if v = JsUndefined then ''Cannot read properties of undefined (reading has)''
                     else ''this.usedConfigs.has is not a function''))
         | None \<Rightarrow> Inl (TypeError ''Cannot read properties of undefined (reading has)'')))"

text \<open>
  \<^verbatim>\<open>BaseCommand.getConfig\<close>: build the object, store it under the configuration name and
  return it.  A constructor that throws leaves the command as it was.
\<close>

type_synonym store = "NewConfigClass list"

definition getConfig ::
  "BaseCommand \<Rightarrow> store \<Rightarrow> string \<Rightarrow> CommandFlag list \<Rightarrow> string list
     \<Rightarrow> error + (nat \<times> BaseCommand \<times> store)" where
  "getConfig this st configName flags extraProperties =
     (case new_NewConfigClass (configManager this) flags extraProperties of
        Inl e \<Rightarrow> Inl e
      | Inr newConfigInstance \<Rightarrow>
          Inr (length st,
               this\<lparr>configMaps := (configMaps this)(configName \<mapsto> length st)\<rparr>,
               st @ [newConfigInstance]))"

text \<open>
  \<^verbatim>\<open>BaseCommand.getUnusedConfigs\<close>: \<^verbatim>\<open>this._configMaps.get(configName).getUnusedConfigs()\<close>.
  A name without an object gives \<^verbatim>\<open>undefined\<close>, and the call on it throws.  The method
  is read from the object like any property: the inherited method is called; anything
  else found under the name is a primitive value or the \<^verbatim>\<open>Map\<close>, and calling it throws.
  (A read of this name ends at an own property or at the method: the keys that its
  getters go through are \<^verbatim>\<open>_getUnusedConfigs\<close>, \<^verbatim>\<open>__getUnusedConfigs\<close> and so on, none of
  them a member of \<^verbatim>\<open>Object.prototype\<close>.)  The store is returned because a getter may
  have run.
\<close>

definition getUnusedConfigs ::
  "BaseCommand \<Rightarrow> store \<Rightarrow> string \<Rightarrow> (error + string list) \<times> store" where
  "getUnusedConfigs this st configName =
     (case configMaps this configName of
        None \<Rightarrow> (Inl (TypeError ''Cannot read properties of undefined''), st)
      | Some r \<Rightarrow>
          (if r < length st
           then (case jsGet (st ! r) ''getUnusedConfigs'' of
                   (Inl e, obj) \<Rightarrow> (Inl e, st[r := obj])
                 | (Inr (Member m), obj) \<Rightarrow> (cfg_getUnusedConfigs obj, st[r := obj])
                 | (Inr other, obj) \<Rightarrow>
                     (Inl (TypeError ''getUnusedConfigs is not a function''), st[r := obj]))
           else (Inl (TypeError ''Cannot read properties of undefined''), st)))"

text \<open>
  What a caller can do between construction and the query: read or assign a property of
  a configuration object it holds, or build another configuration.  A read keeps what
  the getters did even when it throws; an assignment or a construction that throws
  leaves the state as it was.
\<close>

datatype config_event =
    ReadProp nat string
  | WriteProp nat string jsvalue
  | GetConfig string "CommandFlag list" "string list"

fun config_step :: "config_event \<Rightarrow> BaseCommand \<times> store \<Rightarrow> BaseCommand \<times> store" where
  "config_step (ReadProp r p) (this, st) =
     (if r < length st then (this, st[r := snd (jsGet (st ! r) p)]) else (this, st))"
| "config_step (WriteProp r p v) (this, st) =
     (if r < length st
      then (case jsSet (st ! r) p v of
              Inl e \<Rightarrow> (this, st)
            | Inr obj \<Rightarrow> (this, st[r := obj]))
      else (this, st))"
| "config_step (GetConfig configName flags extraProperties) (this, st) =
     (case getConfig this st configName flags extraProperties of
        Inl e \<Rightarrow> (this, st)
      | Inr (r, this', st') \<Rightarrow> (this', st'))"

fun config_run :: "config_event list \<Rightarrow> BaseCommand \<times> store \<Rightarrow> BaseCommand \<times> store" where
  "config_run [] s = s"
| "config_run (ev # evs) s = config_run evs (config_step ev s)"

text \<open>The configuration names rebuilt by a sequence of steps.\<close>

fun rebuilt :: "config_event list \<Rightarrow> string list" where
  "rebuilt [] = []"
| "rebuilt (GetConfig configName flags extraProperties # evs) = configName # rebuilt evs"
| "rebuilt (ev # evs) = rebuilt evs"

text \<open>
  The getters that reading the property \<open>p\<close> invokes, for an object with the declared
  names \<open>names\<close>: the getter of \<open>p\<close>, which reads \<^verbatim>\<open>this[_p]\<close> and so invokes the getter of
  \<open>_p\<close> when that is a declared name too, and so on.  Below it, the getters that the
  reads of a sequence of steps invoke on the object \<open>r\<close>.
\<close>

function getters :: "string list \<Rightarrow> string \<Rightarrow> string list" where
  "getters names p = (if p \<in> set names then p # getters names (CHR ''_'' # p) else [])"
  by pat_completeness auto
termination
proof (relation "measure (\<lambda>(names, p). Suc (sum_list (map length names)) - length p)")
  show "wf (measure (\<lambda>(names, p). Suc (sum_list (map length names)) - length p))"
    by simp
next
  fix names :: "string list" and p
  assume "p \<in> set names"
  then have "length p \<in> set (map length names)"
    by simp
  then have "length p \<le> sum_list (map length names)"
    by (intro member_le_sum_list) simp_all
  then show "((names, CHR ''_'' # p), names, p)
             \<in> measure (\<lambda>(names, p). Suc (sum_list (map length names)) - length p)"
    by simp
qed

fun invoked :: "string list \<Rightarrow> nat \<Rightarrow> config_event list \<Rightarrow> string list" where
  "invoked names r [] = []"
| "invoked names r (ReadProp r' p # evs) =
     (if r' = r then getters names p else []) @ invoked names r evs"
| "invoked names r (ev # evs) = invoked names r evs"

text \<open>Whether a key is an accessor property of the object; whether a key starts with an underscore.\<close>

definition is_accessor :: "NewConfigClass \<Rightarrow> string \<Rightarrow> bool" where
  "is_accessor obj key = (case map_of (props obj) key of Some (Accessor a) \<Rightarrow> True | _ \<Rightarrow> False)"

definition underscored :: "string \<Rightarrow> bool" where
  "underscored key = (case key of [] \<Rightarrow> False | c # cs \<Rightarrow> c = CHR ''_'')"

text \<open>
  The invariant behind \<^verbatim>\<open>getUnusedConfigs\<close>.  For the object: it was built from \<open>flags\<close>
  and \<open>extraProperties\<close>, its members \<^verbatim>\<open>usedConfigs\<close> and \<^verbatim>\<open>getUnusedConfigs\<close> are in
  place, its accessor properties are the declared names, and \<open>usedConfigs\<close> holds exactly
  the declared names in \<open>R\<close>.  For the command: the name \<open>configName\<close> still refers to
  such an object, at the reference \<open>r\<close>.
\<close>

definition tracked_object ::
  "CommandFlag list \<Rightarrow> string list \<Rightarrow> string set \<Rightarrow> NewConfigClass \<Rightarrow> bool" where
  "tracked_object flags extraProperties R obj =
     (cfg_flags obj = flags \<and> cfg_extraProperties obj = extraProperties \<and>
      map_of (props obj) ''usedConfigs'' = Some UsedConfigsMap \<and>
      map_of (props obj) ''getUnusedConfigs'' = None \<and>
      (\<forall>key. is_accessor obj key = (key \<in> set (map constName flags @ extraProperties))) \<and>
      (\<forall>p \<in> set (map constName flags @ extraProperties). (usedConfigs obj p \<noteq> None) = (p \<in> R)))"

definition tracked ::
  "string \<Rightarrow> nat \<Rightarrow> CommandFlag list \<Rightarrow> string list \<Rightarrow> string set \<Rightarrow> BaseCommand \<times> store \<Rightarrow> bool" where
  "tracked configName r flags extraProperties R s =
     (case s of (this, st) \<Rightarrow>
        configMaps this configName = Some r \<and> r < length st \<and>
        tracked_object flags extraProperties R (st ! r))"

subsection \<open>\<^verbatim>\<open>commandActionBuilder\<close>\<close>

text \<open>
  A promise as the action observes it: the time at which it settles and how.
  \<^verbatim>\<open>Promise.all\<close> fulfils when all its promises fulfil and rejects with the reason of the
  promise that rejects first (the earlier array element when two carry the same time).
\<close>

datatype settled = Fulfilled | Rejected error

type_synonym promise = "nat \<times> settled"

fun firstRejection :: "promise list \<Rightarrow> (nat \<times> error) option" where
  "firstRejection [] = None"
| "firstRejection ((t, Fulfilled) # ps) = firstRejection ps"
| "firstRejection ((t, Rejected e) # ps) =
     (case firstRejection ps of
        None \<Rightarrow> Some (t, e)
      | Some (t', e') \<Rightarrow> (if t \<le> t' then Some (t, e) else Some (t', e')))"

definition Promise_all :: "promise list \<Rightarrow> settled" where
  "Promise_all ps = (case firstRejection ps of None \<Rightarrow> Fulfilled | Some (t, e) \<Rightarrow> Rejected e)"

text \<open>
  The collaborators of one run of the action.  A call either throws at once (\<open>Inl\<close>) or
  returns a promise (\<open>Inr\<close>); \<^verbatim>\<open>logger.error\<close> returns or throws.  For
  \<^verbatim>\<open>commandDef.parent\<close> these are \<^verbatim>\<open>logger.error(...)\<close> and \<^verbatim>\<open>close()\<close>, for the lease
  \<^verbatim>\<open>release()\<close>.
\<close>

record Lease =
  release :: "error + promise"

record CommandHandlers =
  parent_logger_error :: "error option"
  parent_close :: "error + promise"

text \<open>What a run of the action calls, in order, and how its own promise settles.\<close>

datatype effect = TasksRun | LoggerError string error | ParentClose | LeaseRelease

record ActionRun =
  effects :: "effect list"
  outcome :: "error + unit"

text \<open>
  The \<^verbatim>\<open>catch\<close> block: log, then throw a \<^verbatim>\<open>SoloError\<close> that wraps the caught error; an
  error thrown by the logger takes its place.
\<close>

definition catchBlock :: "string \<Rightarrow> CommandHandlers \<Rightarrow> error \<Rightarrow> effect list \<times> error" where
  "catchBlock errorString commandDef e =
     ([LoggerError (errorString @ '': '' @ message e) e],
      (case parent_logger_error commandDef of
         Some thrown \<Rightarrow> thrown
       | None \<Rightarrow> SoloError (errorString @ '': '' @ message e) (Some e)))"

text \<open>
  The \<^verbatim>\<open>finally\<close> block: \<^verbatim>\<open>promises.push(commandDef.parent.close())\<close>, then
  \<^verbatim>\<open>if (lease) promises.push(lease.release())\<close>, then \<^verbatim>\<open>await Promise.all(promises)\<close>.
  A call that throws ends the block there.
\<close>

definition finallyBlock :: "Lease option \<Rightarrow> CommandHandlers \<Rightarrow> effect list \<times> (error + unit)" where
  "finallyBlock lease commandDef =
     (case parent_close commandDef of
        Inl thrown \<Rightarrow> ([ParentClose], Inl thrown)
      | Inr closing \<Rightarrow>
          (case lease of
             None \<Rightarrow>
               ([ParentClose],
                (case Promise_all [closing] of Rejected r \<Rightarrow> Inl r | Fulfilled \<Rightarrow> Inr ()))
           | Some l \<Rightarrow>
               (case release l of
                  Inl thrown \<Rightarrow> ([ParentClose, LeaseRelease], Inl thrown)
                | Inr releasing \<Rightarrow>
                    ([ParentClose, LeaseRelease],
                     (case Promise_all [closing, releasing] of
                        Rejected r \<Rightarrow> Inl r
                      | Fulfilled \<Rightarrow> Inr ())))))"

text \<open>
  The action.  \<open>actionTasks\<close> is \<open>Inl\<close> an error when \<^verbatim>\<open>new Listr([...actionTasks], options)\<close>
  throws, which happens before the \<^verbatim>\<open>try\<close>, and otherwise \<open>Inr\<close> the way \<^verbatim>\<open>tasks.run()\<close>
  settles (a run that throws at once is caught like a rejection).  An error that leaves
  the \<^verbatim>\<open>finally\<close> block replaces the one thrown by \<^verbatim>\<open>catch\<close>.
\<close>

definition commandActionBuilder ::
  "error + settled \<Rightarrow> string \<Rightarrow> Lease option \<Rightarrow> CommandHandlers \<Rightarrow> ActionRun" where
  "commandActionBuilder actionTasks errorString lease commandDef =
     (case actionTasks of
        Inl thrown \<Rightarrow> \<lparr>effects = [], outcome = Inl thrown\<rparr>
      | Inr run \<Rightarrow>
          (let caught =
                 (case run of
                    Fulfilled \<Rightarrow> ([], Inr ())
                  | Rejected e \<Rightarrow>
                      (fst (catchBlock errorString commandDef e),
                       Inl (snd (catchBlock errorString commandDef e))));
               finished = finallyBlock lease commandDef
           in \<lparr>effects = [TasksRun] @ fst caught @ fst finished,
               outcome = (case snd finished of Inl r \<Rightarrow> Inl r | Inr u \<Rightarrow> snd caught)\<rparr>))"

section \<open>Example configurations\<close>

text \<open>
  A deployment with three nodes, listed in the order \<open>node2\<close>, \<open>node1\<close>, \<open>node3\<close>:
  \<open>cluster-1\<close> has no entry in \<^verbatim>\<open>clusters\<close>, \<open>cluster-2\<close> has an entry with both
  fields, \<open>cluster-3\<close> has an entry without them and no context in the local
  configuration.
\<close>

definition exampleLocalConfig :: LocalConfig where
  "exampleLocalConfig = \<lparr>clusterRefs = [''cluster-1'' \<mapsto> ''kind-1'', ''cluster-2'' \<mapsto> ''kind-2'']\<rparr>"

definition exampleClusters :: "string \<rightharpoonup> Cluster" where
  "exampleClusters =
     [''cluster-2'' \<mapsto> \<lparr>dnsBaseDomain = Some ''example.org'',
                        dnsConsensusNodePattern = Some ''${nodeAlias}.${namespace}.${nodeId}''\<rparr>,
      ''cluster-3'' \<mapsto> \<lparr>dnsBaseDomain = None, dnsConsensusNodePattern = None\<rparr>]"

definition exampleNodes :: consensusNodesRecord where
  "exampleNodes =
     [(''node2'', \<lparr>name = ''node2'', nodeId = 1, namespace = ''ns1'', cluster = ''cluster-2''\<rparr>),
      (''node1'', \<lparr>name = ''node1'', nodeId = 0, namespace = ''ns1'', cluster = ''cluster-1''\<rparr>),
      (''node3'', \<lparr>name = ''node3'', nodeId = 2, namespace = ''ns1'', cluster = ''cluster-3''\<rparr>)]"

definition exampleComponents :: Components where
  "exampleComponents = \<lparr>consensusNodes = Present exampleNodes\<rparr>"

definition exampleCommand :: BaseCommand where
  "exampleCommand =
     \<lparr>configManager = \<lparr>config_flags = [''namespace'' \<mapsto> JsString ''ns1'']\<rparr>,
      localConfig = exampleLocalConfig,
      remoteConfigManager =
        \<lparr>loaded = True, clusters = exampleClusters, components = Present exampleComponents\<rparr>,
      configMaps = Map.empty\<rparr>"

text \<open>The pattern of \<open>cluster-2\<close> in pieces.\<close>

definition examplePattern :: "piece list" where
  "examplePattern = [Placeholder ''nodeAlias'', Text ''.'', Placeholder ''namespace'', Text ''.'',
     Placeholder ''nodeId'']"

text \<open>The same command before the remote configuration is loaded.\<close>

definition unloadedCommand :: BaseCommand where
  "unloadedCommand =
     exampleCommand\<lparr>remoteConfigManager :=
       \<lparr>loaded = False, clusters = Map.empty, components = Absent\<rparr>\<rparr>"

text \<open>
  Loaded configurations without nodes: no \<^verbatim>\<open>components\<close>, a \<^verbatim>\<open>components\<close> getter that
  throws, and components without a \<^verbatim>\<open>consensusNodes\<close> entry.
\<close>

definition commandWithComponents :: "Components access \<Rightarrow> BaseCommand" where
  "commandWithComponents c =
     exampleCommand\<lparr>remoteConfigManager :=
       \<lparr>loaded = True, clusters = exampleClusters, components = c\<rparr>\<rparr>"

definition accessError :: error where
  "accessError = Error ''TypeError'' ''Cannot read properties of undefined'' None"

text \<open>
  A deployment whose cluster references carry names of members of \<^verbatim>\<open>Object.prototype\<close>,
  and no context for them in the local configuration.
\<close>

definition prototypeNodes :: consensusNodesRecord where
  "prototypeNodes =
     [(''node1'', \<lparr>name = ''node1'', nodeId = 0, namespace = ''ns1'', cluster = ''__proto__''\<rparr>),
      (''node2'', \<lparr>name = ''node2'', nodeId = 1, namespace = ''ns1'', cluster = ''constructor''\<rparr>)]"

definition prototypeCommand :: BaseCommand where
  "prototypeCommand =
     exampleCommand\<lparr>remoteConfigManager :=
       \<lparr>loaded = True, clusters = Map.empty,
        components = Present \<lparr>consensusNodes = Present prototypeNodes\<rparr>\<rparr>\<rparr>"

text \<open>
  A configuration with three flags and two extra properties, and what a command does
  with it: it reads \<open>namespace\<close> twice and \<open>nodeClient\<close> once, assigns \<open>stagingDir\<close>
  without reading it, builds a second configuration and reads it, and tries to assign
  the flag \<open>quiet\<close>.  Below them, the errors of a failing task and a failing release.
\<close>

definition exampleFlags :: "CommandFlag list" where
  "exampleFlags =
     [\<lparr>constName = ''devMode'', flag_name = ''dev''\<rparr>,
      \<lparr>constName = ''quiet'', flag_name = ''quiet-mode''\<rparr>,
      \<lparr>constName = ''namespace'', flag_name = ''namespace''\<rparr>]"

definition exampleExtraProperties :: "string list" where
  "exampleExtraProperties = [''nodeClient'', ''stagingDir'']"

definition exampleEvents :: "config_event list" where
  "exampleEvents =
     [ReadProp 0 ''namespace'',
      WriteProp 0 ''stagingDir'' (JsString ''/tmp/staging''),
      ReadProp 0 ''nodeClient'',
      ReadProp 0 ''namespace'',
      GetConfig ''otherConfigs'' [\<lparr>constName = ''devMode'', flag_name = ''dev''\<rparr>] [],
      ReadProp 1 ''devMode'',
      WriteProp 0 ''quiet'' (JsBoolean True)]"

text \<open>
  Configurations whose declared names meet the members of the object: an extra property
  with the name of the \<^verbatim>\<open>Map\<close> of read counts, and one with the name of the method.  With
  each, the object that \<^verbatim>\<open>getConfig\<close> builds and the command that holds it.
\<close>

definition collidingObject :: "string \<Rightarrow> NewConfigClass" where
  "collidingObject p =
     \<lparr>cfg_flags = [], cfg_extraProperties = [p], usedConfigs = Map.empty,
      props = [(p, Accessor GetSet), (CHR ''_'' # p, Data (JsString [])),
               (''usedConfigs'', UsedConfigsMap)]\<rparr>"

definition collidingCommand :: BaseCommand where
  "collidingCommand = exampleCommand\<lparr>configMaps := [''nodeConfigs'' \<mapsto> 0]\<rparr>"

definition taskError :: error where
  "taskError = Error ''Error'' ''pod not ready'' None"

definition releaseError :: error where
  "releaseError = Error ''Error'' ''lease could not be released'' None"

definition closeError :: error where
  "closeError = Error ''TypeError'' ''Cannot read properties of undefined (reading close)'' None"

text \<open>Two nodes that share a cluster reference and differ in their context.\<close>

definition nodeA :: ConsensusNode where
  "nodeA = ConsensusNode ''node1'' 0 ''ns1'' ''cluster-1'' (Own ''kind-1'')
             ''cluster.local'' ''network-${nodeAlias}-svc.${namespace}.svc''
             ''network-node1-svc.ns1.svc''"

definition nodeB :: ConsensusNode where
  "nodeB = ConsensusNode ''node2'' 1 ''ns1'' ''cluster-1'' (Own ''kind-2'')
             ''cluster.local'' ''network-${nodeAlias}-svc.${namespace}.svc''
             ''network-node2-svc.ns1.svc''"

definition nodeC :: ConsensusNode where
  "nodeC = ConsensusNode ''node3'' 2 ''ns1'' ''cluster-2'' (Own ''kind-1'')
             ''cluster.local'' ''network-${nodeAlias}-svc.${namespace}.svc''
             ''network-node3-svc.ns1.svc''"

section \<open>Consensus-node derivation\<close>

lemma pushConsensusNodes_map:
  "pushConsensusNodes this cls acc nodes = acc @ map (newConsensusNode this cls) nodes"
  by (induction nodes arbitrary: acc) simp_all

lemma getConsensusNodes_Present:
  assumes "isLoaded (getRemoteConfigManager this)"
    and "components (getRemoteConfigManager this) = Present comps"
    and "consensusNodes comps = Present entries"
  shows "getConsensusNodes this =
         Inr (map (newConsensusNode this (clusters (getRemoteConfigManager this))) (map snd entries))"
  using assms by (simp add: getConsensusNodes_def pushConsensusNodes_map Object_values_def)

lemmas example_defs =
  exampleCommand_def exampleLocalConfig_def exampleClusters_def exampleNodes_def
  exampleComponents_def getRemoteConfigManager_def getLocalConfig_def isLoaded_def

text \<open>
  Claim C2, as stated: whenever the remote configuration is not loaded,
  \<^verbatim>\<open>getConsensusNodes\<close> fails with \<^verbatim>\<open>ConfigurationError\<close> and returns no nodes.  The
  error thrown for the unloaded example command is not of that class.
\<close>

theorem getConsensusNodes_not_loaded_counterexample:
  "\<not> fails_with ''ConfigurationError'' (getConsensusNodes unloadedCommand)"
  by (simp add: fails_with_def getConsensusNodes_def unloadedCommand_def exampleCommand_def
      getRemoteConfigManager_def isLoaded_def SoloError_def)

text \<open>
  Claim C2, amended: whenever the remote configuration is not loaded,
  \<^verbatim>\<open>getConsensusNodes\<close> throws a \<^verbatim>\<open>SoloError\<close> constructed from the message "Remote
  configuration is not loaded, and was expected to be loaded", and returns no nodes.
\<close>

theorem getConsensusNodes_not_loaded:
  assumes "\<not> isLoaded (getRemoteConfigManager this)"
  shows "getConsensusNodes this =
           Inl (SoloError ''Remote configuration is not loaded, and was expected to be loaded'' None)
         \<and> fails_with ''SoloError'' (getConsensusNodes this)
         \<and> (\<forall>nodes. getConsensusNodes this \<noteq> Inr nodes)"
  using assms by (simp add: getConsensusNodes_def fails_with_def SoloError_def)

theorem getConsensusNodes_not_loaded_witness:
  "\<not> isLoaded (getRemoteConfigManager unloadedCommand)
   \<and> getConsensusNodes unloadedCommand =
       Inl (Error ''SoloError''
              ''Remote configuration is not loaded, and was expected to be loaded'' None)"
  using getConsensusNodes_not_loaded [of unloadedCommand]
  by (simp add: unloadedCommand_def exampleCommand_def getRemoteConfigManager_def isLoaded_def
      SoloError_def)

text \<open>
  Claim C3: for a loaded remote configuration in which \<^verbatim>\<open>components.consensusNodes\<close> is
  absent or undefined (the components themselves or the entry), or in which reading it
  throws, \<^verbatim>\<open>getConsensusNodes\<close> returns the empty sequence and does not throw.
\<close>

theorem getConsensusNodes_no_nodes:
  assumes "isLoaded (getRemoteConfigManager this)"
    and "components (getRemoteConfigManager this) = Absent
         \<or> (\<exists>e. components (getRemoteConfigManager this) = Raises e)
         \<or> (\<exists>comps. components (getRemoteConfigManager this) = Present comps
              \<and> (consensusNodes comps = Absent \<or> (\<exists>e. consensusNodes comps = Raises e)))"
  shows "getConsensusNodes this = Inr []"
  using assms by (auto simp: getConsensusNodes_def)

theorem getConsensusNodes_no_nodes_witness:
  "getConsensusNodes (commandWithComponents Absent) = Inr []
   \<and> getConsensusNodes (commandWithComponents (Raises accessError)) = Inr []
   \<and> getConsensusNodes (commandWithComponents (Present \<lparr>consensusNodes = Absent\<rparr>)) = Inr []
   \<and> getConsensusNodes
       (commandWithComponents (Present \<lparr>consensusNodes = Raises accessError\<rparr>)) = Inr []"
  using getConsensusNodes_no_nodes [of "commandWithComponents Absent"]
    getConsensusNodes_no_nodes [of "commandWithComponents (Raises accessError)"]
    getConsensusNodes_no_nodes [of "commandWithComponents (Present \<lparr>consensusNodes = Absent\<rparr>)"]
    getConsensusNodes_no_nodes
      [of "commandWithComponents (Present \<lparr>consensusNodes = Raises accessError\<rparr>)"]
  by (simp add: commandWithComponents_def exampleCommand_def getRemoteConfigManager_def
      isLoaded_def)

lemma getConsensusNodes_elements:
  assumes "getConsensusNodes this = Inr nodes" and "n \<in> set nodes"
  shows "\<exists>node. n = newConsensusNode this (clusters (getRemoteConfigManager this)) node"
  using assms
  by (auto simp: getConsensusNodes_def pushConsensusNodes_map
      split: if_splits access.splits)

text \<open>
  Claim C4: a node whose cluster reference has no entry in \<^verbatim>\<open>clusters\<close>, or whose entry
  lacks the field, gets the DNS base domain \<^verbatim>\<open>cluster.local\<close> and the DNS node-name
  pattern \<^verbatim>\<open>network-${nodeAlias}-svc.${namespace}.svc\<close>; where the entry carries a field,
  the node gets the field's value.
\<close>

theorem getConsensusNodes_dns_fallback:
  assumes "isLoaded (getRemoteConfigManager this)"
    and "components (getRemoteConfigManager this) = Present comps"
    and "consensusNodes comps = Present entries"
    and "i < length entries"
  shows "\<exists>nodes. getConsensusNodes this = Inr nodes \<and> length nodes = length entries \<and>
           (case clusters (getRemoteConfigManager this) (cluster (snd (entries ! i))) of
              None \<Rightarrow>
                cn_dnsBaseDomain (nodes ! i) = ''cluster.local'' \<and>
                cn_dnsConsensusNodePattern (nodes ! i) = ''network-${nodeAlias}-svc.${namespace}.svc''
            | Some cl \<Rightarrow>
                cn_dnsBaseDomain (nodes ! i)
                  = (case dnsBaseDomain cl of None \<Rightarrow> ''cluster.local'' | Some d \<Rightarrow> d) \<and>
                cn_dnsConsensusNodePattern (nodes ! i)
                  = (case dnsConsensusNodePattern cl of
                       None \<Rightarrow> ''network-${nodeAlias}-svc.${namespace}.svc''
                     | Some p \<Rightarrow> p))"
  using assms(4)
  by (simp add: getConsensusNodes_Present [OF assms(1-3)] newConsensusNode_def
      resolveDnsBaseDomain_def resolveDnsConsensusNodePattern_def split: option.splits)

theorem getConsensusNodes_dns_fallback_witness:
  "\<exists>nodes. getConsensusNodes exampleCommand = Inr nodes \<and> length nodes = 3 \<and>
     cn_dnsBaseDomain (nodes ! 0) = ''example.org'' \<and>
     cn_dnsConsensusNodePattern (nodes ! 0) = ''${nodeAlias}.${namespace}.${nodeId}'' \<and>
     cn_dnsBaseDomain (nodes ! 1) = ''cluster.local'' \<and>
     cn_dnsConsensusNodePattern (nodes ! 1) = ''network-${nodeAlias}-svc.${namespace}.svc'' \<and>
     cn_dnsBaseDomain (nodes ! 2) = ''cluster.local'' \<and>
     cn_dnsConsensusNodePattern (nodes ! 2) = ''network-${nodeAlias}-svc.${namespace}.svc''"
proof -
  have l: "isLoaded (getRemoteConfigManager exampleCommand)"
    and c: "components (getRemoteConfigManager exampleCommand) = Present exampleComponents"
    and n: "consensusNodes exampleComponents = Present exampleNodes"
    by (simp_all add: example_defs)
  have len: "length exampleNodes = 3"
    by (simp add: exampleNodes_def)
  have cl: "clusters (getRemoteConfigManager exampleCommand) = exampleClusters"
    by (simp add: example_defs)
  obtain nodes where g: "getConsensusNodes exampleCommand = Inr nodes"
    using getConsensusNodes_Present [OF l c n] by blast
  have "0 < length exampleNodes" "1 < length exampleNodes" "2 < length exampleNodes"
    by (simp_all add: len)
  note f = this [THEN getConsensusNodes_dns_fallback [OF l c n]]
  show ?thesis
    using f g unfolding cl len
    by (simp add: exampleNodes_def exampleClusters_def)
qed





text \<open>
  Claim C7: for a loaded remote configuration the result holds exactly one node per
  entry of \<^verbatim>\<open>components.consensusNodes\<close>, the node at position \<open>i\<close> being derived from
  the entry at position \<open>i\<close> of the mapping's iteration order; nothing is sorted.
\<close>

theorem getConsensusNodes_order:
  assumes "isLoaded (getRemoteConfigManager this)"
    and "components (getRemoteConfigManager this) = Present comps"
    and "consensusNodes comps = Present entries"
  shows "\<exists>nodes. getConsensusNodes this = Inr nodes \<and> length nodes = length entries \<and>
           (\<forall>i < length entries.
              nodes ! i = newConsensusNode this (clusters (getRemoteConfigManager this))
                            (snd (entries ! i)) \<and>
              cn_name (nodes ! i) = name (snd (entries ! i)) \<and>
              cn_nodeId (nodes ! i) = nodeId (snd (entries ! i)) \<and>
              cn_namespace (nodes ! i) = namespace (snd (entries ! i)) \<and>
              cn_cluster (nodes ! i) = cluster (snd (entries ! i)))"
proof -
  let ?derive = "newConsensusNode this (clusters (getRemoteConfigManager this))"
  have g: "getConsensusNodes this = Inr (map ?derive (map snd entries))"
    by (rule getConsensusNodes_Present [OF assms])
  have "map ?derive (map snd entries) ! i = ?derive (snd (entries ! i))"
    if "i < length entries" for i
    using that by simp
  then show ?thesis
    using g by (simp add: newConsensusNode_def)
qed

theorem getConsensusNodes_order_witness:
  "map fst exampleNodes = [''node2'', ''node1'', ''node3''] \<and>
   (\<exists>nodes. getConsensusNodes exampleCommand = Inr nodes \<and>
      map cn_name nodes = [''node2'', ''node1'', ''node3''])"
proof -
  have l: "isLoaded (getRemoteConfigManager exampleCommand)"
    and c: "components (getRemoteConfigManager exampleCommand) = Present exampleComponents"
    and n: "consensusNodes exampleComponents = Present exampleNodes"
    by (simp_all add: example_defs)
  obtain nodes where g: "getConsensusNodes exampleCommand = Inr nodes"
    and len: "length nodes = length exampleNodes"
    and el: "\<forall>i < length exampleNodes. cn_name (nodes ! i) = name (snd (exampleNodes ! i))"
    using getConsensusNodes_order [OF l c n] by blast
  have "map cn_name nodes = map (\<lambda>e. name (snd e)) exampleNodes"
    using len el by (simp add: list_eq_iff_nth_eq)
  then show ?thesis
    using g by (simp add: exampleNodes_def)
qed

section \<open>Rendering of the domain name\<close>

lemma substitute_other:
  "c \<noteq> CHR ''$'' \<Longrightarrow>
   substitutePlaceholders nodeAlias ns (c # cs) = c # substitutePlaceholders nodeAlias ns cs"
  by (auto simp: take_Cons')

lemma substitute_text:
  "CHR ''$'' \<notin> set s \<Longrightarrow>
   substitutePlaceholders nodeAlias ns (s @ rest) = s @ substitutePlaceholders nodeAlias ns rest"
proof (induction s)
  case Nil
  then show ?case by simp
next
  case (Cons c s)
  then have "c \<noteq> CHR ''$''" by auto
  with Cons show ?case
    by (simp add: substitute_other del: substitutePlaceholders.simps)
qed

lemma substitute_nodeAlias:
  "substitutePlaceholders nodeAlias ns (''${nodeAlias}'' @ rest)
   = nodeAlias @ substitutePlaceholders nodeAlias ns rest"
  by simp

lemma substitute_namespace:
  "substitutePlaceholders nodeAlias ns (''${namespace}'' @ rest)
   = ns @ substitutePlaceholders nodeAlias ns rest"
  by simp

lemma closing_brace_unique:
  assumes "c \<notin> set xs" "c \<notin> set ys" "xs @ c # r = ys @ c # r'"
  shows "xs = ys"
  using assms
proof (induction xs arbitrary: ys)
  case Nil
  then show ?case by (cases ys) auto
next
  case (Cons x xs)
  then show ?case by (cases ys) auto
qed

lemma take_prefix: "take (length p) s = p \<Longrightarrow> \<exists>r. s = p @ r"
  by (metis append_take_drop_id)

lemma substitute_unknown:
  assumes "CHR ''$'' \<notin> set x" "CHR ''}'' \<notin> set x" "x \<noteq> ''nodeAlias''" "x \<noteq> ''namespace''"
  shows "substitutePlaceholders nodeAlias ns (''${'' @ x @ ''}'' @ rest)
         = ''${'' @ x @ ''}'' @ substitutePlaceholders nodeAlias ns rest"
proof -
  have no: "take 12 (''${'' @ x @ ''}'' @ rest) \<noteq> ''${'' @ y @ ''}''"
    if "length y = 9" "CHR ''}'' \<notin> set y" "x \<noteq> y" for y
  proof
    assume "take 12 (''${'' @ x @ ''}'' @ rest) = ''${'' @ y @ ''}''"
    then have "take (length (''${'' @ y @ ''}'')) (''${'' @ x @ ''}'' @ rest) = ''${'' @ y @ ''}''"
      using that(1) by simp
    then obtain r where "''${'' @ x @ ''}'' @ rest = (''${'' @ y @ ''}'') @ r"
      using take_prefix by blast
    then have "x @ CHR ''}'' # rest = y @ CHR ''}'' # r"
      by simp
    then have "x = y"
      using closing_brace_unique assms(2) that(2) by metis
    with that(3) show False by simp
  qed
  have a: "take 12 (''${'' @ x @ ''}'' @ rest) \<noteq> ''${nodeAlias}''"
    using no [of "''nodeAlias''"] assms(3) by simp
  have b: "take 12 (''${'' @ x @ ''}'' @ rest) \<noteq> ''${namespace}''"
    using no [of "''namespace''"] assms(4) by simp
  have "substitutePlaceholders nodeAlias ns (''${'' @ x @ ''}'' @ rest)
        = CHR ''$'' # substitutePlaceholders nodeAlias ns ((''{'' @ x @ ''}'') @ rest)"
    using a b by simp
  also have "substitutePlaceholders nodeAlias ns ((''{'' @ x @ ''}'') @ rest)
             = (''{'' @ x @ ''}'') @ substitutePlaceholders nodeAlias ns rest"
    using assms(1) by (intro substitute_text) simp
  finally show ?thesis by simp
qed

lemma substitute_pieces:
  "list_all well_formed ps \<Longrightarrow>
   substitutePlaceholders nodeAlias ns (unparse ps) = instantiate nodeAlias ns ps"
proof (induction ps)
  case Nil
  then show ?case by simp
next
  case (Cons p ps)
  show ?case
  proof (cases p)
    case (Text s)
    with Cons show ?thesis by (simp add: substitute_text)
  next
    case (Placeholder x)
    with Cons show ?thesis
      using substitute_nodeAlias [of nodeAlias ns "unparse ps"]
        substitute_namespace [of nodeAlias ns "unparse ps"]
        substitute_unknown [of x nodeAlias ns "unparse ps"]
      by (simp del: substitutePlaceholders.simps)
  qed
qed


text \<open>
  Claim C5: the fully-qualified domain name of every derived node is the rendering of
  the node's resolved pattern with its own alias and namespace; rendering replaces the
  placeholders \<^verbatim>\<open>${nodeAlias}\<close> and \<^verbatim>\<open>${namespace}\<close> and leaves every other placeholder
  verbatim; the pattern \<^verbatim>\<open>network-${nodeAlias}-svc.${namespace}.svc\<close> with alias \<open>node1\<close>
  and namespace \<open>ns1\<close> renders \<^verbatim>\<open>network-node1-svc.ns1.svc\<close>.
\<close>

theorem fqdn_rendering:
  "(list_all well_formed ps \<longrightarrow>
      renderConsensusNodeFullyQualifiedDomainName nodeAlias nid ns cl baseDomain (unparse ps)
      = instantiate nodeAlias ns ps)
   \<and> renderConsensusNodeFullyQualifiedDomainName ''node1'' nid ''ns1'' cl baseDomain
        ''network-${nodeAlias}-svc.${namespace}.svc'' = ''network-node1-svc.ns1.svc''
   \<and> (getConsensusNodes this = Inr nodes \<and> n \<in> set nodes \<longrightarrow>
        cn_fullyQualifiedDomainName n
        = renderConsensusNodeFullyQualifiedDomainName
            (cn_name n) (cn_nodeId n) (cn_namespace n) (cn_cluster n)
            (cn_dnsBaseDomain n) (cn_dnsConsensusNodePattern n))"
proof (intro conjI impI)
  assume "list_all well_formed ps"
  then show "renderConsensusNodeFullyQualifiedDomainName nodeAlias nid ns cl baseDomain (unparse ps)
             = instantiate nodeAlias ns ps"
    by (simp add: renderConsensusNodeFullyQualifiedDomainName_def substitute_pieces)
next
  show "renderConsensusNodeFullyQualifiedDomainName ''node1'' nid ''ns1'' cl baseDomain
          ''network-${nodeAlias}-svc.${namespace}.svc'' = ''network-node1-svc.ns1.svc''"
    by (simp add: renderConsensusNodeFullyQualifiedDomainName_def)
next
  assume "getConsensusNodes this = Inr nodes \<and> n \<in> set nodes"
  then obtain node where "n = newConsensusNode this (clusters (getRemoteConfigManager this)) node"
    using getConsensusNodes_elements by blast
  then show "cn_fullyQualifiedDomainName n
        = renderConsensusNodeFullyQualifiedDomainName
            (cn_name n) (cn_nodeId n) (cn_namespace n) (cn_cluster n)
            (cn_dnsBaseDomain n) (cn_dnsConsensusNodePattern n)"
    by (simp add: newConsensusNode_def)
qed

theorem fqdn_rendering_witness:
  "list_all well_formed examplePattern
   \<and> unparse examplePattern = ''${nodeAlias}.${namespace}.${nodeId}''
   \<and> renderConsensusNodeFullyQualifiedDomainName ''node2'' 1 ''ns1'' ''cluster-2'' ''example.org''
        ''${nodeAlias}.${namespace}.${nodeId}'' = ''node2.ns1.${nodeId}''
   \<and> (\<exists>nodes. getConsensusNodes exampleCommand = Inr nodes \<and>
        map cn_fullyQualifiedDomainName nodes
        = [''node2.ns1.${nodeId}'', ''network-node1-svc.ns1.svc'', ''network-node3-svc.ns1.svc''])"
proof -
  have wf: "list_all well_formed examplePattern"
    and un: "unparse examplePattern = ''${nodeAlias}.${namespace}.${nodeId}''"
    by (simp_all add: examplePattern_def)
  have "renderConsensusNodeFullyQualifiedDomainName ''node2'' 1 ''ns1'' ''cluster-2'' ''example.org''
          (unparse examplePattern) = instantiate ''node2'' ''ns1'' examplePattern"
    using fqdn_rendering [of examplePattern "''node2''" 1 "''ns1''" "''cluster-2''" "''example.org''"] wf
    by blast
  then have r: "renderConsensusNodeFullyQualifiedDomainName ''node2'' 1 ''ns1'' ''cluster-2''
                  ''example.org'' ''${nodeAlias}.${namespace}.${nodeId}'' = ''node2.ns1.${nodeId}''"
    unfolding un by (simp add: examplePattern_def)
  have "\<exists>nodes. getConsensusNodes exampleCommand = Inr nodes \<and>
        map cn_fullyQualifiedDomainName nodes
        = [''node2.ns1.${nodeId}'', ''network-node1-svc.ns1.svc'', ''network-node3-svc.ns1.svc'']"
    by (simp add: getConsensusNodes_def example_defs pushConsensusNodes_map Object_values_def
        newConsensusNode_def resolveDnsConsensusNodePattern_def Let_def
        renderConsensusNodeFullyQualifiedDomainName_def)
  with wf un r show ?thesis by blast
qed

section \<open>Distinct contexts and cluster references\<close>

lemma first_seen_Nil [simp]: "first_seen [] = []"
  by (simp add: first_seen_def)

lemma first_seen_snoc:
  "first_seen (xs @ [x]) = first_seen xs @ (if x \<in> set xs then [] else [x])"
proof -
  have a: "filter (\<lambda>i. (xs @ [x]) ! i \<notin> set (take i (xs @ [x]))) [0..<length xs]
         = filter (\<lambda>i. xs ! i \<notin> set (take i xs)) [0..<length xs]"
    by (rule filter_cong) (auto simp: nth_append)
  have b: "map (\<lambda>i. (xs @ [x]) ! i) (filter (\<lambda>i. xs ! i \<notin> set (take i xs)) [0..<length xs])
         = map (\<lambda>i. xs ! i) (filter (\<lambda>i. xs ! i \<notin> set (take i xs)) [0..<length xs])"
    by (rule map_cong) (auto simp: nth_append)
  show ?thesis
    unfolding first_seen_def using a b by simp
qed

lemma set_first_seen [simp]: "set (first_seen xs) = set xs"
  by (induction xs rule: rev_induct) (auto simp: first_seen_snoc)

lemma distinct_first_seen [simp]: "distinct (first_seen xs)"
  by (induction xs rule: rev_induct) (auto simp: first_seen_snoc)

lemma pushContexts_first_seen:
  "contexts = first_seen (map cn_context seen) \<Longrightarrow>
   pushContexts contexts nodes = first_seen (map cn_context (seen @ nodes))"
proof (induction nodes arbitrary: contexts seen)
  case Nil
  then show ?case by simp
next
  case (Cons node nodes)
  have "(if cn_context node \<notin> set contexts then contexts @ [cn_context node] else contexts)
        = first_seen (map cn_context (seen @ [node]))"
    using Cons.prems by (simp add: first_seen_snoc)
  from Cons.IH [OF this] show ?case by simp
qed

lemma find_snoc:
  "find P (xs @ [x]) = (case find P xs of Some y \<Rightarrow> Some y | None \<Rightarrow> if P x then Some x else None)"
  by (induction xs) auto

lemma set_Object_keys: "set (Object_keys obj) = set (map fst (ownProperties obj))"
  by (auto simp: Object_keys_def)

lemma distinct_Object_keys:
  "distinct (map fst (ownProperties obj)) \<Longrightarrow> distinct (Object_keys obj)"
  by (auto simp: Object_keys_def)

lemma assignProperty_plain:
  "prototype obj = None \<Longrightarrow> key \<noteq> ''__proto__'' \<Longrightarrow>
   assignProperty obj key v = Inr (obj\<lparr>ownProperties := ownProperties obj @ [(key, v)]\<rparr>)"
  by (simp add: assignProperty_def read_only_def)

lemma setClusterRefs_inv:
  assumes "prototype refs = None"
    and "''__proto__'' \<notin> cn_cluster ` set nodes"
    and "map fst (ownProperties refs) = first_seen (map cn_cluster seen)"
    and "\<And>c. map_of (ownProperties refs) c = map_option cn_context (find (\<lambda>n. cn_cluster n = c) seen)"
  shows "\<exists>obj. setClusterRefs refs nodes = Inr obj \<and> prototype obj = None \<and>
           map fst (ownProperties obj) = first_seen (map cn_cluster (seen @ nodes)) \<and>
           (\<forall>c. map_of (ownProperties obj) c
                = map_option cn_context (find (\<lambda>n. cn_cluster n = c) (seen @ nodes)))"
  using assms
proof (induction nodes arbitrary: refs seen)
  case Nil
  then show ?case by simp
next
  case (Cons node nodes)
  let ?refs' = "if cn_cluster node \<notin> set (Object_keys refs)
                then refs\<lparr>ownProperties := ownProperties refs @ [(cn_cluster node, cn_context node)]\<rparr>
                else refs"
  have np: "cn_cluster node \<noteq> ''__proto__''" and rest: "''__proto__'' \<notin> cn_cluster ` set nodes"
    using Cons.prems(2) by auto
  have step: "setClusterRefs refs (node # nodes) = setClusterRefs ?refs' nodes"
    using assignProperty_plain [OF Cons.prems(1) np] by simp
  have proto: "prototype ?refs' = None"
    using Cons.prems(1) by simp
  have keys: "set (map fst (ownProperties refs)) = cn_cluster ` set seen"
    using Cons.prems(3) by simp
  have k: "map fst (ownProperties ?refs') = first_seen (map cn_cluster (seen @ [node]))"
    using Cons.prems(3) keys by (simp add: first_seen_snoc set_Object_keys)
  have m: "map_of (ownProperties ?refs') c
           = map_option cn_context (find (\<lambda>n. cn_cluster n = c) (seen @ [node]))" for c
  proof (cases "find (\<lambda>n. cn_cluster n = c) seen")
    case None
    then have notin: "c \<notin> cn_cluster ` set seen"
      by (auto simp: find_None_iff)
    have "map_of (ownProperties refs) c = None"
      using Cons.prems(4) [of c] None by simp
    then show ?thesis
      using None notin keys by (auto simp: find_snoc set_Object_keys map_add_def)
  next
    case (Some y)
    have "map_of (ownProperties refs) c = Some (cn_context y)"
      using Cons.prems(4) [of c] Some by simp
    then show ?thesis
      using Some by (simp add: find_snoc map_add_def)
  qed
  from Cons.IH [OF proto rest k m] show ?case
    unfolding step by simp
qed

lemma count_list_keys:
  "distinct xs \<Longrightarrow> x \<in> set xs \<Longrightarrow> count_list xs x = 1"
  by (induction xs) (auto simp: count_list_0_iff)





section \<open>Unused configuration properties\<close>

declare jsGet.simps [simp del] jsSet.simps [simp del] getters.simps [simp del]

lemma is_accessor_iff: "is_accessor obj key = (\<exists>a. map_of (props obj) key = Some (Accessor a))"
  by (auto simp: is_accessor_def split: option.splits slot.splits)

lemma is_accessor_Accessor:
  "is_accessor (obj\<lparr>props := (p, Accessor a) # props obj\<rparr>) k = (k = p \<or> is_accessor obj k)"
  by (simp add: is_accessor_def)

lemma is_accessor_Data:
  "is_accessor (obj\<lparr>props := (p, Data v) # props obj\<rparr>) k = (k \<noteq> p \<and> is_accessor obj k)"
  by (simp add: is_accessor_def)

lemma jsGet_tracking:
  assumes "map_of (props obj) ''usedConfigs'' = Some UsedConfigsMap"
    and "\<And>key. is_accessor obj key = (key \<in> set names)"
  shows "\<exists>res u. jsGet obj p = (Inr res, obj\<lparr>usedConfigs := u\<rparr>) \<and>
           (\<forall>n. (u n \<noteq> None) = (usedConfigs obj n \<noteq> None \<or> n \<in> set (getters names p)))"
  using assms
proof (induction names p arbitrary: obj rule: getters.induct)
  case (1 names p)
  show ?case
  proof (cases "p \<in> set names")
    case True
    then obtain a where acc: "map_of (props obj) p = Some (Accessor a)"
      using "1.prems"(2) [of p] by (auto simp: is_accessor_iff)
    let ?obj' = "obj\<lparr>usedConfigs := (usedConfigs obj)
                    (p \<mapsto> (case usedConfigs obj p of None \<Rightarrow> 1 | Some n \<Rightarrow> n + 1))\<rparr>"
    have step: "jsGet obj p = jsGet ?obj' (CHR ''_'' # p)"
      by (subst jsGet.simps) (simp add: acc "1.prems"(1))
    have "map_of (props ?obj') ''usedConfigs'' = Some UsedConfigsMap"
      and "\<And>key. is_accessor ?obj' key = (key \<in> set names)"
      using "1.prems" by (simp_all add: is_accessor_def)
    from "1.IH" [OF True this] obtain res u where
      r: "jsGet ?obj' (CHR ''_'' # p) = (Inr res, ?obj'\<lparr>usedConfigs := u\<rparr>)"
      and u: "\<forall>n. (u n \<noteq> None)
                = (usedConfigs ?obj' n \<noteq> None \<or> n \<in> set (getters names (CHR ''_'' # p)))"
      by blast
    have g: "getters names p = p # getters names (CHR ''_'' # p)"
      using True by (subst getters.simps) simp
    have "jsGet obj p = (Inr res, obj\<lparr>usedConfigs := u\<rparr>)"
      using step r by simp
    moreover have "(u n \<noteq> None) = (usedConfigs obj n \<noteq> None \<or> n \<in> set (getters names p))" for n
      using u [rule_format, of n] by (auto simp: g)
    ultimately show ?thesis by blast
  next
    case False
    then have na: "\<not> is_accessor obj p"
      using "1.prems"(2) by blast
    have g: "getters names p = []"
      using False by (subst getters.simps) simp
    have "\<exists>res. jsGet obj p = (Inr res, obj)"
      using na by (subst jsGet.simps) (simp add: is_accessor_def split: option.splits slot.splits)
    then obtain res where "jsGet obj p = (Inr res, obj\<lparr>usedConfigs := usedConfigs obj\<rparr>)"
      by auto
    then show ?thesis
      using g by (intro exI [of _ res] exI [of _ "usedConfigs obj"]) simp
  qed
qed

lemma jsSet_props:
  "jsSet obj p v = Inr obj' \<Longrightarrow>
     usedConfigs obj' = usedConfigs obj \<and> cfg_flags obj' = cfg_flags obj \<and>
     cfg_extraProperties obj' = cfg_extraProperties obj \<and>
     is_accessor obj' k = is_accessor obj k \<and>
     (k \<noteq> p \<longrightarrow> \<not> underscored k \<longrightarrow> map_of (props obj') k = map_of (props obj) k)"
proof (induction obj p v rule: jsSet.induct)
  case (1 obj key v)
  show ?case
  proof (cases "map_of (props obj) key = Some (Accessor GetSet)")
    case True
    then have "jsSet obj (CHR ''_'' # key) v = Inr obj'"
      using "1.prems" by (subst (asm) jsSet.simps) simp
    moreover have "\<not> underscored k \<longrightarrow> k \<noteq> CHR ''_'' # key"
      by (auto simp: underscored_def)
    ultimately show ?thesis
      using "1.IH" [OF True refl refl] by blast
  next
    case False
    have "obj' = obj \<or> (obj' = obj\<lparr>props := (key, Data v) # props obj\<rparr> \<and> \<not> is_accessor obj key)"
      using "1.prems" False
      by (subst (asm) jsSet.simps)
        (simp add: is_accessor_def split: option.splits slot.splits accessor.splits if_splits)
    then show ?thesis
      by (auto simp: is_accessor_Data)
  qed
qed

lemma defineProperty_Inr:
  "defineProperty obj k a = Inr obj' \<Longrightarrow>
     \<not> is_accessor obj k \<and> obj' = obj\<lparr>props := (k, Accessor a) # props obj\<rparr>"
  by (simp add: defineProperty_def is_accessor_def split: option.splits slot.splits)

lemma declareProperty_Inr:
  assumes "declareProperty obj p v a = Inr obj'"
  shows "usedConfigs obj' = usedConfigs obj \<and> cfg_flags obj' = cfg_flags obj \<and>
     cfg_extraProperties obj' = cfg_extraProperties obj \<and>
     \<not> is_accessor obj p \<and>
     is_accessor obj' k = (k = p \<or> is_accessor obj k) \<and>
     (k \<noteq> p \<longrightarrow> \<not> underscored k \<longrightarrow> map_of (props obj') k = map_of (props obj) k)"
proof -
  from assms obtain obj1 where
    s: "jsSet obj (CHR ''_'' # p) v = Inr obj1" and d: "defineProperty obj1 p a = Inr obj'"
    by (auto simp: declareProperty_def split: sum.splits)
  note sk = jsSet_props [OF s, of k]
  note sp = jsSet_props [OF s, of p]
  note d' = defineProperty_Inr [OF d]
  have o: "obj' = obj1\<lparr>props := (p, Accessor a) # props obj1\<rparr>"
    using d' by simp
  have 1: "\<not> is_accessor obj p"
    using sp d' by blast
  have "is_accessor obj' k = (k = p \<or> is_accessor obj1 k)"
    unfolding o by (rule is_accessor_Accessor)
  then have 2: "is_accessor obj' k = (k = p \<or> is_accessor obj k)"
    using sk by blast
  have "k \<noteq> p \<longrightarrow> map_of (props obj') k = map_of (props obj1) k"
    unfolding o by simp
  moreover have "\<not> underscored k \<longrightarrow> k \<noteq> CHR ''_'' # p"
    by (auto simp: underscored_def)
  ultimately have 3: "k \<noteq> p \<longrightarrow> \<not> underscored k \<longrightarrow> map_of (props obj') k = map_of (props obj) k"
    using sk by metis
  have 4: "usedConfigs obj' = usedConfigs obj1" "cfg_flags obj' = cfg_flags obj1"
    "cfg_extraProperties obj' = cfg_extraProperties obj1"
    unfolding o by simp_all
  from sk 1 2 3 4 show ?thesis
    by metis
qed

lemma addFlags_Inr:
  "addFlags cm obj flags = Inr obj' \<Longrightarrow>
     usedConfigs obj' = usedConfigs obj \<and> cfg_flags obj' = cfg_flags obj \<and>
     cfg_extraProperties obj' = cfg_extraProperties obj \<and>
     distinct (map constName flags) \<and>
     (\<forall>n \<in> set (map constName flags). \<not> is_accessor obj n) \<and>
     is_accessor obj' k = (k \<in> set (map constName flags) \<or> is_accessor obj k) \<and>
     (k \<notin> set (map constName flags) \<longrightarrow> \<not> underscored k \<longrightarrow>
        map_of (props obj') k = map_of (props obj) k)"
proof (induction flags arbitrary: obj)
  case Nil
  then show ?case by simp
next
  case (Cons flag flags)
  let ?p = "constName flag"
  from Cons.prems obtain obj1 where
    d: "declareProperty obj ?p (getFlag cm flag) GetOnly = Inr obj1"
    and r: "addFlags cm obj1 flags = Inr obj'"
    by (auto split: sum.splits)
  note ih = Cons.IH [OF r]
  note dk = declareProperty_Inr [OF d, of k]
  have acc1: "is_accessor obj1 n = (n = ?p \<or> is_accessor obj n)" for n
    using declareProperty_Inr [OF d, of n] by blast
  have fresh: "\<forall>n \<in> set (map constName flags). \<not> is_accessor obj1 n"
    using ih by blast
  have 1: "?p \<notin> set (map constName flags)"
    using fresh acc1 [of ?p] by blast
  have 2: "\<forall>n \<in> set (map constName (flag # flags)). \<not> is_accessor obj n"
    using fresh acc1 dk by auto
  have 3: "is_accessor obj' k = (k \<in> set (map constName (flag # flags)) \<or> is_accessor obj k)"
    using ih acc1 [of k] by auto
  have 4: "k \<notin> set (map constName (flag # flags)) \<longrightarrow> \<not> underscored k \<longrightarrow>
        map_of (props obj') k = map_of (props obj) k"
    using ih dk by auto
  have 5: "usedConfigs obj' = usedConfigs obj" "cfg_flags obj' = cfg_flags obj"
    "cfg_extraProperties obj' = cfg_extraProperties obj"
    using ih dk by simp_all
  have 6: "distinct (map constName (flag # flags))"
    using ih 1 by simp
  from 2 3 4 5 6 show ?case by blast
qed

lemma addExtraProperties_Inr:
  "addExtraProperties obj ps = Inr obj' \<Longrightarrow>
     usedConfigs obj' = usedConfigs obj \<and> cfg_flags obj' = cfg_flags obj \<and>
     cfg_extraProperties obj' = cfg_extraProperties obj \<and>
     distinct ps \<and>
     (\<forall>n \<in> set ps. \<not> is_accessor obj n) \<and>
     is_accessor obj' k = (k \<in> set ps \<or> is_accessor obj k) \<and>
     (k \<notin> set ps \<longrightarrow> \<not> underscored k \<longrightarrow> map_of (props obj') k = map_of (props obj) k)"
proof (induction ps arbitrary: obj)
  case Nil
  then show ?case by simp
next
  case (Cons q ps)
  from Cons.prems obtain obj1 where
    d: "declareProperty obj q (JsString []) GetSet = Inr obj1"
    and r: "addExtraProperties obj1 ps = Inr obj'"
    by (auto split: sum.splits)
  note ih = Cons.IH [OF r]
  note dk = declareProperty_Inr [OF d, of k]
  have acc1: "is_accessor obj1 n = (n = q \<or> is_accessor obj n)" for n
    using declareProperty_Inr [OF d, of n] by blast
  have fresh: "\<forall>n \<in> set ps. \<not> is_accessor obj1 n"
    using ih by blast
  have 1: "q \<notin> set ps"
    using fresh acc1 [of q] by blast
  have 2: "\<forall>n \<in> set (q # ps). \<not> is_accessor obj n"
    using fresh acc1 dk by auto
  have 3: "is_accessor obj' k = (k \<in> set (q # ps) \<or> is_accessor obj k)"
    using ih acc1 [of k] by auto
  have 4: "k \<notin> set (q # ps) \<longrightarrow> \<not> underscored k \<longrightarrow>
        map_of (props obj') k = map_of (props obj) k"
    using ih dk by auto
  have 5: "usedConfigs obj' = usedConfigs obj" "cfg_flags obj' = cfg_flags obj"
    "cfg_extraProperties obj' = cfg_extraProperties obj"
    using ih dk by simp_all
  have 6: "distinct (q # ps)"
    using ih 1 by simp
  from 2 3 4 5 6 show ?case by blast
qed

lemma new_NewConfigClass_Inr:
  assumes "new_NewConfigClass cm flags extraProperties = Inr obj"
  shows "cfg_flags obj = flags \<and> cfg_extraProperties obj = extraProperties \<and>
         usedConfigs obj = Map.empty \<and>
         distinct (map constName flags @ extraProperties) \<and>
         is_accessor obj k = (k \<in> set (map constName flags @ extraProperties)) \<and>
         (k \<notin> set (map constName flags @ extraProperties) \<longrightarrow> \<not> underscored k \<longrightarrow>
            map_of (props obj) k = map_of [(''usedConfigs'', UsedConfigsMap)] k)"
proof -
  let ?obj0 = "\<lparr>cfg_flags = flags, cfg_extraProperties = extraProperties,
              usedConfigs = Map.empty, props = [(''usedConfigs'', UsedConfigsMap)]\<rparr>"
  from assms obtain obj1 where
    a: "addFlags cm ?obj0 flags = Inr obj1" and b: "addExtraProperties obj1 extraProperties = Inr obj"
    by (auto simp: new_NewConfigClass_def split: sum.splits)
  note ak = addFlags_Inr [OF a, of k]
  note bk = addExtraProperties_Inr [OF b, of k]
  have none0: "\<not> is_accessor ?obj0 n" for n
    by (simp add: is_accessor_def)
  have acc1: "is_accessor obj1 n = (n \<in> set (map constName flags))" for n
    using addFlags_Inr [OF a, of n] none0 by blast
  have disj: "\<forall>n \<in> set extraProperties. n \<notin> set (map constName flags)"
    using bk acc1 by blast
  have 1: "distinct (map constName flags @ extraProperties)"
    using ak bk disj by auto
  have 2: "is_accessor obj k = (k \<in> set (map constName flags @ extraProperties))"
    using bk acc1 [of k] by auto
  have 3: "k \<notin> set (map constName flags @ extraProperties) \<longrightarrow> \<not> underscored k \<longrightarrow>
            map_of (props obj) k = map_of [(''usedConfigs'', UsedConfigsMap)] k"
    using ak bk by auto
  have 4: "cfg_flags obj = flags" "cfg_extraProperties obj = extraProperties"
    "usedConfigs obj = Map.empty"
    using ak bk by simp_all
  from 1 2 3 4 show ?thesis by blast
qed

lemma tracked_object_new:
  assumes "new_NewConfigClass cm flags extraProperties = Inr obj"
    and "''usedConfigs'' \<notin> set (map constName flags @ extraProperties)"
    and "''getUnusedConfigs'' \<notin> set (map constName flags @ extraProperties)"
  shows "tracked_object flags extraProperties {} obj"
proof -
  note n = assms(1)
  have u: "map_of (props obj) ''usedConfigs'' = Some UsedConfigsMap"
    using new_NewConfigClass_Inr [OF n, of "''usedConfigs''"] assms(2)
    by (simp add: underscored_def)
  have g: "map_of (props obj) ''getUnusedConfigs'' = None"
    using new_NewConfigClass_Inr [OF n, of "''getUnusedConfigs''"] assms(3)
    by (simp add: underscored_def)
  have a: "is_accessor obj k = (k \<in> set (map constName flags @ extraProperties))" for k
    using new_NewConfigClass_Inr [OF n, of k] by blast
  have c: "cfg_flags obj = flags" "cfg_extraProperties obj = extraProperties"
    "usedConfigs obj = Map.empty"
    using new_NewConfigClass_Inr [OF n, of "[]"] by simp_all
  show ?thesis
    unfolding tracked_object_def using u g a c by simp
qed

lemma tracked_getConfig:
  assumes "getConfig this st configName flags extraProperties = Inr (r, this1, st1)"
    and "''usedConfigs'' \<notin> set (map constName flags @ extraProperties)"
    and "''getUnusedConfigs'' \<notin> set (map constName flags @ extraProperties)"
  shows "tracked configName r flags extraProperties {} (this1, st1)"
proof -
  from assms(1) obtain obj where
    n: "new_NewConfigClass (configManager this) flags extraProperties = Inr obj"
    and r: "r = length st"
    and t: "this1 = this\<lparr>configMaps := (configMaps this)(configName \<mapsto> length st)\<rparr>"
    and s: "st1 = st @ [obj]"
    by (auto simp: getConfig_def split: sum.splits)
  show ?thesis
    unfolding tracked_def using tracked_object_new [OF n assms(2,3)] by (simp add: r t s)
qed

lemma getConfig_distinct:
  assumes "getConfig this st configName flags extraProperties = Inr res"
  shows "distinct (map constName flags @ extraProperties)"
proof -
  from assms obtain obj where
    "new_NewConfigClass (configManager this) flags extraProperties = Inr obj"
    by (auto simp: getConfig_def split: sum.splits)
  from new_NewConfigClass_Inr [OF this, of "[]"] show ?thesis
    by blast
qed

lemma tracked_object_read:
  assumes "tracked_object flags extraProperties R obj"
  shows "tracked_object flags extraProperties
           (R \<union> set (getters (map constName flags @ extraProperties) p)) (snd (jsGet obj p))"
proof -
  let ?names = "map constName flags @ extraProperties"
  have u: "map_of (props obj) ''usedConfigs'' = Some UsedConfigsMap"
    and a: "\<And>key. is_accessor obj key = (key \<in> set ?names)"
    using assms by (simp_all add: tracked_object_def)
  from jsGet_tracking [of obj ?names p, OF u a] obtain res u' where
    g: "jsGet obj p = (Inr res, obj\<lparr>usedConfigs := u'\<rparr>)"
    and c: "\<forall>n. (u' n \<noteq> None) = (usedConfigs obj n \<noteq> None \<or> n \<in> set (getters ?names p))"
    by blast
  have "(u' n \<noteq> None) = (n \<in> R \<union> set (getters ?names p))" if "n \<in> set ?names" for n
  proof -
    have "(usedConfigs obj n \<noteq> None) = (n \<in> R)"
      using assms that unfolding tracked_object_def by blast
    then show ?thesis
      using c [rule_format, of n] by blast
  qed
  then show ?thesis
    using assms unfolding g tracked_object_def by (simp add: is_accessor_def)
qed

lemma tracked_object_write:
  assumes "tracked_object flags extraProperties R obj"
    and "p \<noteq> ''usedConfigs''" and "p \<noteq> ''getUnusedConfigs''"
    and "jsSet obj p v = Inr obj'"
  shows "tracked_object flags extraProperties R obj'"
proof -
  note s = jsSet_props [OF assms(4)]
  have u: "map_of (props obj') ''usedConfigs'' = map_of (props obj) ''usedConfigs''"
    using s [of "''usedConfigs''"] assms(2) by (simp add: underscored_def)
  have g: "map_of (props obj') ''getUnusedConfigs'' = map_of (props obj) ''getUnusedConfigs''"
    using s [of "''getUnusedConfigs''"] assms(3) by (simp add: underscored_def)
  have a: "is_accessor obj' k = is_accessor obj k" for k
    using s [of k] by blast
  have c: "usedConfigs obj' = usedConfigs obj" "cfg_flags obj' = cfg_flags obj"
    "cfg_extraProperties obj' = cfg_extraProperties obj"
    using s [of "[]"] by simp_all
  show ?thesis
    using assms(1) unfolding tracked_object_def u g a c by simp
qed

lemma tracked_object_unused:
  assumes "tracked_object flags extraProperties R obj"
  shows "jsGet obj ''getUnusedConfigs'' = (Inr (Member ''getUnusedConfigs''), obj)"
    and "cfg_getUnusedConfigs obj
         = Inr (filter (\<lambda>p. p \<notin> R) (map constName flags @ extraProperties))"
proof -
  let ?names = "map constName flags @ extraProperties"
  have i: "cfg_flags obj = flags" "cfg_extraProperties obj = extraProperties"
    "map_of (props obj) ''usedConfigs'' = Some UsedConfigsMap"
    "map_of (props obj) ''getUnusedConfigs'' = None"
    using assms by (simp_all add: tracked_object_def)
  show "jsGet obj ''getUnusedConfigs'' = (Inr (Member ''getUnusedConfigs''), obj)"
    by (subst jsGet.simps) (simp add: i inherited_members_def)
  have u: "(usedConfigs obj p = None) = (p \<notin> R)" if "p \<in> set ?names" for p
  proof -
    have "(usedConfigs obj p \<noteq> None) = (p \<in> R)"
      using assms that unfolding tracked_object_def by blast
    then show ?thesis by blast
  qed
  have "filter (\<lambda>p. usedConfigs obj p = None) ?names = filter (\<lambda>p. p \<notin> R) ?names"
    by (rule filter_cong [OF refl u])
  then have f: "filter (\<lambda>p. usedConfigs obj p = None) (map constName flags)
             @ filter (\<lambda>p. usedConfigs obj p = None) extraProperties
             = filter (\<lambda>p. p \<notin> R) ?names"
    by simp
  show "cfg_getUnusedConfigs obj = Inr (filter (\<lambda>p. p \<notin> R) ?names)"
  proof (cases "?names = []")
    case True
    then show ?thesis
      by (simp add: cfg_getUnusedConfigs_def i)
  next
    case False
    then show ?thesis
      using f by (simp add: cfg_getUnusedConfigs_def i)
  qed
qed

lemma tracked_step:
  assumes "tracked configName r flags extraProperties R s"
    and "configName \<notin> set (rebuilt [ev])"
    and "\<And>v. ev \<noteq> WriteProp r ''usedConfigs'' v"
    and "\<And>v. ev \<noteq> WriteProp r ''getUnusedConfigs'' v"
  shows "tracked configName r flags extraProperties
           (R \<union> set (invoked (map constName flags @ extraProperties) r [ev])) (config_step ev s)"
proof (cases s)
  case (Pair this st)
  have c: "configMaps this configName = Some r" and l: "r < length st"
    and o: "tracked_object flags extraProperties R (st ! r)"
    using assms(1) by (simp_all add: Pair tracked_def)
  show ?thesis
  proof (cases ev)
    case (ReadProp r' p)
    show ?thesis
    proof (cases "r' = r")
      case True
      then show ?thesis
        using c l tracked_object_read [OF o, of p] by (simp add: Pair ReadProp tracked_def)
    next
      case False
      then show ?thesis
        using c l o by (simp add: Pair ReadProp tracked_def)
    qed
  next
    case (WriteProp r' p v)
    show ?thesis
    proof (cases "r' = r")
      case True
      then have p: "p \<noteq> ''usedConfigs''" "p \<noteq> ''getUnusedConfigs''"
        using assms(3,4) WriteProp by auto
      show ?thesis
      proof (cases "jsSet (st ! r) p v")
        case (Inl e)
        then show ?thesis
          using c l o True by (simp add: Pair WriteProp tracked_def)
      next
        case (Inr obj')
        then show ?thesis
          using c l True tracked_object_write [OF o p Inr] by (simp add: Pair WriteProp tracked_def)
      qed
    next
      case False
      then show ?thesis
        using c l o by (simp add: Pair WriteProp tracked_def split: sum.splits)
    qed
  next
    case (GetConfig cn fl ex)
    then have "cn \<noteq> configName"
      using assms(2) by auto
    then show ?thesis
      using c l o
      by (auto simp: Pair GetConfig tracked_def getConfig_def nth_append split: sum.splits)
  qed
qed

lemma rebuilt_Cons: "set (rebuilt (ev # evs)) = set (rebuilt [ev]) \<union> set (rebuilt evs)"
  by (cases ev) auto

lemma invoked_Cons:
  "set (invoked names r (ev # evs)) = set (invoked names r [ev]) \<union> set (invoked names r evs)"
  by (cases ev) auto

lemma tracked_run:
  assumes "tracked configName r flags extraProperties R s"
    and "configName \<notin> set (rebuilt evs)"
    and "\<And>v. WriteProp r ''usedConfigs'' v \<notin> set evs"
    and "\<And>v. WriteProp r ''getUnusedConfigs'' v \<notin> set evs"
  shows "tracked configName r flags extraProperties
           (R \<union> set (invoked (map constName flags @ extraProperties) r evs)) (config_run evs s)"
  using assms
proof (induction evs arbitrary: R s)
  case Nil
  then show ?case by simp
next
  case (Cons ev evs)
  let ?names = "map constName flags @ extraProperties"
  have a: "configName \<notin> set (rebuilt [ev])" and b: "configName \<notin> set (rebuilt evs)"
    using Cons.prems(2) rebuilt_Cons [of ev evs] by auto
  have w1: "\<And>v. ev \<noteq> WriteProp r ''usedConfigs'' v"
    and w2: "\<And>v. ev \<noteq> WriteProp r ''getUnusedConfigs'' v"
    using Cons.prems(3,4) by auto
  have w3: "\<And>v. WriteProp r ''usedConfigs'' v \<notin> set evs"
    and w4: "\<And>v. WriteProp r ''getUnusedConfigs'' v \<notin> set evs"
    using Cons.prems(3,4) by auto
  have "R \<union> set (invoked ?names r [ev]) \<union> set (invoked ?names r evs)
        = R \<union> set (invoked ?names r (ev # evs))"
    using invoked_Cons [of ?names r ev evs] by blast
  with Cons.IH [OF tracked_step [OF Cons.prems(1) a w1 w2] b w3 w4] show ?case
    by simp
qed

lemma tracked_getUnusedConfigs:
  assumes "tracked configName r flags extraProperties R (this, st)"
  shows "getUnusedConfigs this st configName
         = (Inr (filter (\<lambda>p. p \<notin> R) (map constName flags @ extraProperties)), st)"
proof -
  have c: "configMaps this configName = Some r" and l: "r < length st"
    and o: "tracked_object flags extraProperties R (st ! r)"
    using assms by (simp_all add: tracked_def)
  show ?thesis
    using c l tracked_object_unused [OF o] by (simp add: getUnusedConfigs_def)
qed

lemma getters_head: "p \<in> set names \<Longrightarrow> p \<in> set (getters names p)"
  by (subst getters.simps) simp

lemma getters_subset: "set (getters names p) \<subseteq> set names"
  by (induction names p rule: getters.induct) (subst getters.simps, auto)

lemma getters_plain:
  assumes "\<forall>n \<in> set names. CHR ''_'' # n \<notin> set names"
  shows "getters names p = (if p \<in> set names then [p] else [])"
proof (cases "p \<in> set names")
  case True
  then have "CHR ''_'' # p \<notin> set names"
    using assms by blast
  then have "getters names (CHR ''_'' # p) = []"
    by (subst getters.simps) simp
  then show ?thesis
    using True by (subst getters.simps) simp
next
  case False
  then show ?thesis
    by (subst getters.simps) simp
qed

lemma invoked_read:
  "ReadProp r p \<in> set evs \<Longrightarrow> p \<in> set names \<Longrightarrow> p \<in> set (invoked names r evs)"
proof (induction evs)
  case Nil
  then show ?case by simp
next
  case (Cons ev evs)
  then show ?case
    by (cases ev) (auto simp: getters_head)
qed

lemma invoked_plain:
  assumes "\<forall>n \<in> set names. CHR ''_'' # n \<notin> set names"
  shows "set (invoked names r evs) = {p \<in> set names. ReadProp r p \<in> set evs}"
proof (induction evs)
  case Nil
  then show ?case by simp
next
  case (Cons ev evs)
  then show ?case
    by (cases ev) (auto simp: getters_plain [OF assms])
qed




section \<open>Lease release at the end of a command\<close>





end
